theory Spec2Isabelle
  imports Complex_Main
begin

section \<open>The chain of ephMPS/mps/mp.py\<close>

text \<open>
  Exceptions of the Python source are values: every \<open>raise\<close>, every failing
  \<open>assert\<close> and every failing built-in operation is a branch returning an error.
\<close>

datatype error =
    ValueError
  | AssertionError
  | TypeError
  | IndexError
  | NotImplementedError

datatype dtype = Float64 | Complex128

text \<open>
  The attributes of \<open>MatrixProduct.__init__\<close> that the operations below read or write.
  \<open>mp\<close> is \<open>_mp\<close>, \<open>stored_threshold\<close> is \<open>_threshold\<close> and \<open>stored_qntot\<close> is
  \<open>_qntot\<close>; an attribute that may hold \<open>None\<close> is an option. Site tensors are values
  of a type parameter: the numerical library that computes on them is outside the
  repository.
\<close>

record 'a chain =
  mp :: "'a list"
  dtype :: dtype
  compress_method :: string
  stored_threshold :: real
  use_dummy_qn :: bool
  qn :: "int list list option"
  qnidx :: "int option"
  stored_qntot :: "int option"

definition init :: "'a chain" where
  "init = \<lparr> mp = [], dtype = Float64, compress_method = ''svd'',
            stored_threshold = 1 / 1000, use_dummy_qn = False,
            qn = None, qnidx = None, stored_qntot = None \<rparr>"

definition site_num :: "'a chain \<Rightarrow> int" where
  "site_num c = int (length (mp c))"

subsection \<open>Properties with setters\<close>

definition threshold :: "'a chain \<Rightarrow> real" where
  "threshold c = stored_threshold c"

text \<open>
  A setter returns the exception raised, if any, together with the chain as the call
  leaves it.
\<close>

definition set_threshold :: "'a chain \<Rightarrow> real \<Rightarrow> error option \<times> 'a chain" where
  "set_threshold c v =
     (if v \<le> 0 then (Some ValueError, c)
      else if v = 1 then (Some ValueError, c)
      else (None, c\<lparr> stored_threshold := v \<rparr>))"

definition qntot :: "'a chain \<Rightarrow> int option" where
  "qntot c = (if use_dummy_qn c then Some 0 else stored_qntot c)"

definition set_qntot :: "'a chain \<Rightarrow> int option \<Rightarrow> 'a chain" where
  "set_qntot c v = (if \<not> use_dummy_qn c then c\<lparr> stored_qntot := v \<rparr> else c)"

subsection \<open>Python lists and ranges\<close>

text \<open>\<open>range(a, b)\<close> and \<open>range(a, b, -1)\<close>.\<close>

definition py_range :: "int \<Rightarrow> int \<Rightarrow> int list" where
  "py_range a b = [a..b - 1]"

definition py_range_down :: "int \<Rightarrow> int \<Rightarrow> int list" where
  "py_range_down a b = rev [b + 1..a]"

text \<open>
  The position that index \<open>i\<close> denotes in a list of length \<open>n\<close>: a negative index
  counts from the end, an index outside \<open>[-n, n)\<close> raises \<open>IndexError\<close>.
\<close>

definition py_index :: "nat \<Rightarrow> int \<Rightarrow> error + nat" where
  "py_index n i =
     (if 0 \<le> i \<and> i < int n then Inr (nat i)
      else if - int n \<le> i \<and> i < 0 then Inr (nat (int n + i))
      else Inl IndexError)"

subsection \<open>Moving the quantum-number boundary\<close>

text \<open>
  The comprehension \<open>[self.qntot - i for i in self.qn[idx]]\<close>: subtracting from
  \<open>None\<close> raises \<open>TypeError\<close> at the first element.
\<close>

fun flip_labels :: "int option \<Rightarrow> int list \<Rightarrow> error + int list" where
  "flip_labels (Some t) xs = Inr (map (\<lambda>i. t - i) xs)"
| "flip_labels None xs = (if xs = [] then Inr [] else Inl TypeError)"

text \<open>The loop body \<open>self.qn[idx] = [self.qntot - i for i in self.qn[idx]]\<close>.\<close>

definition flip_at :: "int option \<Rightarrow> int list list \<Rightarrow> int \<Rightarrow> error + int list list" where
  "flip_at qt q idx =
     (case py_index (length q) idx of
        Inl e \<Rightarrow> Inl e
      | Inr k \<Rightarrow>
          (case flip_labels qt (q ! k) of
             Inl e \<Rightarrow> Inl e
           | Inr l \<Rightarrow> Inr (q[k := l])))"

fun flip_loop :: "int option \<Rightarrow> int list \<Rightarrow> int list list \<Rightarrow> error + int list list" where
  "flip_loop qt [] q = Inr q"
| "flip_loop qt (idx # idxs) q =
     (case flip_at qt q idx of
        Inl e \<Rightarrow> Inl e
      | Inr q' \<Rightarrow> flip_loop qt idxs q')"

text \<open>
  \<open>move_qnidx\<close>: \<open>self.qnidx + 1\<close> and \<open>len(self.qn)\<close> raise \<open>TypeError\<close> on
  \<open>None\<close>.
\<close>

definition move_qnidx :: "'a chain \<Rightarrow> int \<Rightarrow> error + 'a chain" where
  "move_qnidx c dstidx =
     (case qnidx c of
        None \<Rightarrow> Inl TypeError
      | Some a \<Rightarrow>
          (case qn c of
             None \<Rightarrow> Inl TypeError
           | Some q \<Rightarrow>
               (case flip_loop (qntot c) (py_range (a + 1) (int (length q) - 1)) q of
                  Inl e \<Rightarrow> Inl e
                | Inr q1 \<Rightarrow>
                    (case flip_loop (qntot c)
                            (py_range_down (int (length q1) - 2) dstidx) q1 of
                       Inl e \<Rightarrow> Inl e
                     | Inr q2 \<Rightarrow> Inr (c\<lparr> qn := Some q2, qnidx := Some dstidx \<rparr>)))))"

subsection \<open>Assertions and error propagation\<close>

definition py_assert :: "bool \<Rightarrow> error + unit" where
  "py_assert b = (if b then Inr () else Inl AssertionError)"

definition err_bind :: "error + 'a \<Rightarrow> ('a \<Rightarrow> error + 'b) \<Rightarrow> error + 'b" where
  "err_bind m f = (case m of Inl e \<Rightarrow> Inl e | Inr x \<Rightarrow> f x)"

subsection \<open>External collaborators\<close>

text \<open>
  What \<open>svd_qn.Csvd\<close> returns: six values in SVD mode, four in QR mode.
\<close>

datatype 'a csvd_result =
    SVD 'a "real list" "int list option" 'a "real list" "int list option"
  | QR 'a "int list option" 'a "int list option"

datatype scalar = PyFloat real | PyComplex complex

text \<open>
  A value of type float64. A finite one is given by the real number it denotes; the
  threshold and the singular values are finite, the results of the floating-point
  operations on them need not be.
\<close>

datatype float64 = Finite real | PosInf | NegInf | NaN

text \<open>An integer array of one or of two dimensions.\<close>

datatype intarray = Arr1 "int list" | Arr2 "int list list"

text \<open>
  The code outside \<open>mp.py\<close> that the sweeps and the auxiliary operations call: the
  members that subclasses of \<open>MatrixProduct\<close> override (\<open>is_mpo\<close>, \<open>_get_sigmaqn\<close>:
  both raise \<open>NotImplementedError\<close> in the base class), the \<open>Matrix\<close> class, \<open>Csvd\<close>
  and the numpy operations. Each is a parameter of the model.
\<close>

record 'a ext =
  is_mpo :: "error + bool"
  sub_get_sigmaqn :: "int \<Rightarrow> error + int list"
  Matrix :: "'a \<Rightarrow> bool \<Rightarrow> 'a"
  with_sigmaqn :: "'a \<Rightarrow> int list \<Rightarrow> 'a"
  sigmaqn :: "'a \<Rightarrow> int list"
  np_cast :: "dtype \<Rightarrow> 'a \<Rightarrow> 'a"
  mt_any :: "'a \<Rightarrow> bool"
  check_lortho :: "'a \<Rightarrow> bool"
  check_rortho :: "'a \<Rightarrow> bool"
  r_combine :: "'a \<Rightarrow> 'a"
  l_combine :: "'a \<Rightarrow> 'a"
  shape_first :: "'a \<Rightarrow> nat"
  shape_last :: "'a \<Rightarrow> nat"
  pdim_prod :: "'a \<Rightarrow> nat"
  Csvd :: "'a \<Rightarrow> intarray \<Rightarrow> intarray \<Rightarrow> int option \<Rightarrow> bool \<Rightarrow> bool \<Rightarrow> error + 'a csvd_result"
  np_T :: "'a \<Rightarrow> 'a"
  ncols :: "'a \<Rightarrow> nat"
  take_cols :: "nat \<Rightarrow> 'a \<Rightarrow> 'a"
  take_rows :: "nat \<Rightarrow> 'a \<Rightarrow> 'a"
  scale_cols :: "'a \<Rightarrow> real list \<Rightarrow> 'a"
  scale_rows :: "real list \<Rightarrow> 'a \<Rightarrow> 'a"
  tensordot1 :: "'a \<Rightarrow> 'a \<Rightarrow> 'a"
  reshape_vt :: "'a \<Rightarrow> nat \<Rightarrow> 'a \<Rightarrow> 'a"
  reshape_u :: "'a \<Rightarrow> 'a \<Rightarrow> nat \<Rightarrow> 'a"
  np_mul :: "'a \<Rightarrow> scalar \<Rightarrow> 'a"
  np_allclose :: "'a \<Rightarrow> 'a \<Rightarrow> error + bool"
  linalg_norm :: "real list \<Rightarrow> float64"
  np_divide :: "real \<Rightarrow> float64 \<Rightarrow> float64"

text \<open>
  \<open>Csvd x qnbigl qnbigr qntot qr system_r\<close> is the call with \<open>QR=qr\<close> and with
  \<open>system="R"\<close> when \<open>system_r\<close>, \<open>"L"\<close> otherwise. \<open>take_cols m u\<close> is
  \<open>u[:, :m]\<close>, \<open>take_rows m vt\<close> is \<open>vt[:m, :]\<close>, \<open>scale_cols u s\<close> is
  \<open>einsum("ji, i -> ji", u, s)\<close>, \<open>scale_rows s vt\<close> is \<open>einsum("i, ij -> ij", s, vt)\<close>,
  \<open>tensordot1 a b\<close> is \<open>tensordot(a, b, axes=1)\<close>, \<open>reshape_vt vt m site\<close> is
  \<open>reshape(vt, [m] + list(site.pdim) + [vt.shape[1] // site.pdim_prod])\<close> and
  \<open>reshape_u u site m\<close> is
  \<open>reshape(u, [u.shape[0] // site.pdim_prod] + list(site.pdim) + [m])\<close>.
  \<open>linalg_norm sigma\<close> is \<open>scipy.linalg.norm(sigma)\<close>, the Euclidean norm as scipy
  computes it in float64, and \<open>np_divide s n\<close> is the float64 quotient \<open>s / n\<close> of
  numpy, which rounds and which gives an infinity or not-a-number for a zero divisor:
  the model does not fix how they round.
\<close>

subsection \<open>Truncation rule of \<open>compress\<close>\<close>

text \<open>\<open>sigma / scipy.linalg.norm(sigma)\<close>, entry by entry.\<close>

definition normed_sigma :: "'a ext \<Rightarrow> real list \<Rightarrow> float64 list" where
  "normed_sigma x sigma = map (\<lambda>s. np_divide x s (linalg_norm x sigma)) sigma"

text \<open>
  The comparison \<open>v > t\<close> of a float64 value with a finite threshold: exact on finite
  values, false on not-a-number.
\<close>

fun float_gt :: "float64 \<Rightarrow> real \<Rightarrow> bool" where
  "float_gt (Finite y) t = (t < y)"
| "float_gt PosInf t = True"
| "float_gt NegInf t = False"
| "float_gt NaN t = False"

text \<open>\<open>normed_sigma > threshold\<close>, entry by entry.\<close>

definition greater_than :: "float64 list \<Rightarrow> real \<Rightarrow> bool list" where
  "greater_than vs t = map (\<lambda>v. float_gt v t) vs"

definition count_nonzero :: "bool list \<Rightarrow> nat" where
  "count_nonzero bs = length (filter (\<lambda>b. b) bs)"

text \<open>\<open>int(v)\<close> on a finite float rounds towards zero.\<close>

definition py_int :: "real \<Rightarrow> int" where
  "py_int v = (if 0 \<le> v then \<lfloor>v\<rfloor> else \<lceil>v\<rceil>)"

text \<open>The two branches of \<open>compress\<close> that compute \<open>m_trunc\<close> (lines 303 to 310).\<close>

definition m_trunc :: "'a ext \<Rightarrow> real \<Rightarrow> real list \<Rightarrow> int" where
  "m_trunc x thr sigma =
     (if thr < 1 then int (count_nonzero (greater_than (normed_sigma x sigma) thr))
      else min (py_int thr) (int (length sigma)))"

text \<open>
  Lines 302 to 311: the assertion on the threshold, the rank, and the assertion that the
  rank is not zero.
\<close>

definition truncation :: "'a ext \<Rightarrow> real \<Rightarrow> real list \<Rightarrow> error + nat" where
  "truncation x thr sigma =
     err_bind (py_assert (0 < thr \<and> thr \<noteq> 1)) (\<lambda>_.
     err_bind (py_assert (m_trunc x thr sigma \<noteq> 0)) (\<lambda>_.
     Inr (nat (m_trunc x thr sigma))))"

subsection \<open>Item access\<close>

definition getitem :: "'a chain \<Rightarrow> int \<Rightarrow> error + 'a" where
  "getitem c item = err_bind (py_index (length (mp c)) item) (\<lambda>k. Inr (mp c ! k))"

definition array2mt :: "'a ext \<Rightarrow> 'a chain \<Rightarrow> 'a \<Rightarrow> int \<Rightarrow> error + 'a" where
  "array2mt x c array idx =
     err_bind (is_mpo x) (\<lambda>b.
       let mt = Matrix x (np_cast x (dtype c) array) b in
       if use_dummy_qn c then Inr (with_sigmaqn x mt (replicate (pdim_prod x mt) 0))
       else err_bind (sub_get_sigmaqn x idx) (\<lambda>s. Inr (with_sigmaqn x mt s)))"

definition setitem :: "'a ext \<Rightarrow> 'a chain \<Rightarrow> int \<Rightarrow> 'a \<Rightarrow> error + 'a chain" where
  "setitem x c key array =
     err_bind (array2mt x c array key) (\<lambda>new_mt.
     err_bind (py_index (length (mp c)) key) (\<lambda>k.
     Inr (c\<lparr> mp := (mp c)[k := new_mt] \<rparr>)))"

text \<open>\<open>self.qn[idx]\<close> and \<open>self.qn[idx] = labels\<close>; subscripting \<open>None\<close> raises.\<close>

definition get_qn :: "'a chain \<Rightarrow> int \<Rightarrow> error + int list" where
  "get_qn c idx =
     (case qn c of
        None \<Rightarrow> Inl TypeError
      | Some q \<Rightarrow> err_bind (py_index (length q) idx) (\<lambda>k. Inr (q ! k)))"

definition set_qn :: "'a chain \<Rightarrow> int \<Rightarrow> int list \<Rightarrow> error + 'a chain" where
  "set_qn c idx labels =
     (case qn c of
        None \<Rightarrow> Inl TypeError
      | Some q \<Rightarrow> err_bind (py_index (length q) idx) (\<lambda>k. Inr (c\<lparr> qn := Some (q[k := labels]) \<rparr>)))"

subsection \<open>Orthogonality direction\<close>

definition is_left_canon :: "'a chain \<Rightarrow> bool" where
  "is_left_canon c = (qnidx c = Some (site_num c - 1))"

definition is_right_canon :: "'a chain \<Rightarrow> bool" where
  "is_right_canon c = (qnidx c = Some 0)"

definition iter_idx_list :: "'a chain \<Rightarrow> int list" where
  "iter_idx_list c =
     (if is_left_canon c then py_range_down (site_num c - 1) 0
      else py_range 0 (site_num c - 1))"

definition switch_domain :: "'a chain \<Rightarrow> 'a chain" where
  "switch_domain c =
     (if is_left_canon c then c\<lparr> qnidx := Some 0 \<rparr>
      else c\<lparr> qnidx := Some (site_num c - 1) \<rparr>)"

text \<open>\<open>self[:-1]\<close> and \<open>self[1:]\<close> go through \<open>_mp\<close>.\<close>

definition check_left_canonical :: "'a ext \<Rightarrow> 'a chain \<Rightarrow> bool" where
  "check_left_canonical x c = list_all (check_lortho x) (butlast (mp c))"

definition check_right_canonical :: "'a ext \<Rightarrow> 'a chain \<Rightarrow> bool" where
  "check_right_canonical x c = list_all (check_rortho x) (tl (mp c))"

subsection \<open>The sweeps\<close>

definition outer_add :: "int list \<Rightarrow> int list \<Rightarrow> int list list" where
  "outer_add xs ys = map (\<lambda>a. map (\<lambda>b. a + b) ys) xs"

definition get_big_qn :: "'a ext \<Rightarrow> 'a chain \<Rightarrow> int \<Rightarrow> error + intarray \<times> intarray" where
  "get_big_qn x c idx =
     err_bind (getitem c idx) (\<lambda>mt.
     err_bind (get_qn c idx) (\<lambda>qnl.
     err_bind (get_qn c (idx + 1)) (\<lambda>qnr.
     err_bind (py_assert (length qnl = shape_first x mt)) (\<lambda>_.
     err_bind (py_assert (length qnr = shape_last x mt)) (\<lambda>_.
     err_bind (py_assert (length (sigmaqn x mt) = pdim_prod x mt)) (\<lambda>_.
     if is_left_canon c then Inr (Arr1 qnl, Arr2 (outer_add (sigmaqn x mt) qnr))
     else Inr (Arr2 (outer_add qnl (sigmaqn x mt)), Arr1 qnr)))))))"

text \<open>
  \<open>_update_ms\<close>. The optional arguments \<open>sigma\<close>, \<open>qnlset\<close>, \<open>qnrset\<close> and
  \<open>m_trunc\<close> are options; the statements run in the order of the source, so the
  neighbouring tensor and the labels are written before the assertion on the new tensor.
\<close>

definition update_ms ::
  "'a ext \<Rightarrow> 'a chain \<Rightarrow> int \<Rightarrow> 'a \<Rightarrow> 'a \<Rightarrow> real list option \<Rightarrow> int list option \<Rightarrow>
   int list option \<Rightarrow> nat option \<Rightarrow> error + 'a chain" where
  "update_ms x c idx u0 vt0 sigma qnlset qnrset m_opt =
     (let m = (case m_opt of None \<Rightarrow> ncols x u0 | Some k \<Rightarrow> k);
          u1 = take_cols x m u0;
          vt1 = take_rows x m vt0;
          u = (case sigma of
                 None \<Rightarrow> u1
               | Some s \<Rightarrow> if is_left_canon c then scale_cols x u1 (take m s) else u1);
          vt = (case sigma of
                  None \<Rightarrow> vt1
                | Some s \<Rightarrow> if is_left_canon c then vt1 else scale_rows x (take m s) vt1)
      in
      if is_left_canon c then
        err_bind (getitem c (idx - 1)) (\<lambda>prev.
        err_bind (setitem x c (idx - 1) (tensordot1 x prev u)) (\<lambda>c1.
        err_bind (getitem c1 idx) (\<lambda>site.
        err_bind (case qnrset of
                    None \<Rightarrow> Inr c1
                  | Some qs \<Rightarrow> set_qn c1 idx (take m qs)) (\<lambda>c2.
        err_bind (py_assert (mt_any x (reshape_vt x vt m site))) (\<lambda>_.
        setitem x c2 idx (reshape_vt x vt m site))))))
      else
        err_bind (getitem c (idx + 1)) (\<lambda>nxt.
        err_bind (setitem x c (idx + 1) (tensordot1 x vt nxt)) (\<lambda>c1.
        err_bind (getitem c1 idx) (\<lambda>site.
        err_bind (case qnlset of
                    None \<Rightarrow> Inr c1
                  | Some qs \<Rightarrow> set_qn c1 (idx + 1) (take m qs)) (\<lambda>c2.
        err_bind (py_assert (mt_any x (reshape_u x u site m))) (\<lambda>_.
        setitem x c2 idx (reshape_u x u site m)))))))"

text \<open>
  The body of the loop of \<open>compress\<close>, for one index; \<open>system_r\<close> says whether
  \<open>system\<close>, which \<open>compress\<close> computes once before the loop, is \<open>"R"\<close>. Unpacking
  the four values of a QR result into six names raises \<open>ValueError\<close>.
\<close>

definition compress_site :: "'a ext \<Rightarrow> bool \<Rightarrow> 'a chain \<Rightarrow> int \<Rightarrow> error + 'a chain" where
  "compress_site x system_r c idx =
     err_bind (getitem c idx) (\<lambda>mt.
     err_bind (py_assert (mt_any x mt)) (\<lambda>_.
     err_bind (get_big_qn x c idx) (\<lambda>(qnbigl, qnbigr).
     err_bind (Csvd x (if is_left_canon c then r_combine x mt else l_combine x mt)
                 qnbigl qnbigr (qntot c) False system_r) (\<lambda>r.
     case r of
       QR _ _ _ _ \<Rightarrow> Inl ValueError
     | SVD u _ qnlset v sigma qnrset \<Rightarrow>
         err_bind (truncation x (threshold c) sigma) (\<lambda>m.
         update_ms x c idx u (np_T x v) (Some sigma) qnlset qnrset (Some m))))))"

text \<open>The body of the loop of \<open>canonicalise\<close>.\<close>

definition canonicalise_site :: "'a ext \<Rightarrow> 'a chain \<Rightarrow> int \<Rightarrow> error + 'a chain" where
  "canonicalise_site x c idx =
     err_bind (getitem c idx) (\<lambda>mt.
     err_bind (py_assert (mt_any x mt)) (\<lambda>_.
     err_bind (get_big_qn x c idx) (\<lambda>(qnbigl, qnbigr).
     err_bind (Csvd x (if is_left_canon c then r_combine x mt else l_combine x mt)
                 qnbigl qnbigr (qntot c) True (is_left_canon c)) (\<lambda>r.
     case r of
       SVD _ _ _ _ _ _ \<Rightarrow> Inl ValueError
     | QR u qnlset v qnrset \<Rightarrow>
         update_ms x c idx u (np_T x v) None qnlset qnrset None))))"

text \<open>
  A \<open>for\<close> loop over a list of indices that was computed before the loop started. Beside
  the chain, it returns the indices whose body ran, in the order they ran.
\<close>

fun sweep_loop ::
  "('a chain \<Rightarrow> int \<Rightarrow> error + 'a chain) \<Rightarrow> int list \<Rightarrow> 'a chain \<Rightarrow>
   error + 'a chain \<times> int list" where
  "sweep_loop body [] c = Inr (c, [])"
| "sweep_loop body (idx # idxs) c =
     err_bind (body c idx) (\<lambda>c1.
     err_bind (sweep_loop body idxs c1) (\<lambda>(c2, visited).
     Inr (c2, idx # visited)))"

definition compress :: "'a ext \<Rightarrow> 'a chain \<Rightarrow> bool \<Rightarrow> error + 'a chain \<times> int list" where
  "compress x c check_canonical =
     err_bind (if check_canonical then
                 (if is_left_canon c then py_assert (check_left_canonical x c)
                  else py_assert (check_right_canonical x c))
               else Inr ()) (\<lambda>_.
     err_bind (sweep_loop (compress_site x (is_left_canon c)) (iter_idx_list c) c)
       (\<lambda>(c1, visited).
     Inr (switch_domain c1, visited)))"

definition canonicalise :: "'a ext \<Rightarrow> 'a chain \<Rightarrow> error + 'a chain \<times> int list" where
  "canonicalise x c =
     err_bind (sweep_loop (canonicalise_site x) (iter_idx_list c) c) (\<lambda>(c1, visited).
     Inr (switch_domain c1, visited))"

subsection \<open>Auxiliary operations\<close>

fun to_complex_loop :: "'a ext \<Rightarrow> int list \<Rightarrow> 'a chain \<Rightarrow> error + 'a chain" where
  "to_complex_loop x [] c = Inr c"
| "to_complex_loop x (i # is) c =
     err_bind (getitem c i) (\<lambda>mt.
     err_bind (setitem x c i (np_cast x (dtype c) mt)) (\<lambda>c1.
     to_complex_loop x is c1))"

text \<open>
  \<open>to_complex(inplace=True)\<close>; with \<open>inplace=False\<close> the same runs on a deep copy, which
  as a value is the chain itself.
\<close>

definition to_complex :: "'a ext \<Rightarrow> 'a chain \<Rightarrow> error + 'a chain" where
  "to_complex x c =
     to_complex_loop x (py_range 0 (site_num c)) (c\<lparr> dtype := Complex128 \<rparr>)"

definition iscomplexobj :: "scalar \<Rightarrow> bool" where
  "iscomplexobj v = (case v of PyFloat _ \<Rightarrow> False | PyComplex _ \<Rightarrow> True)"

text \<open>
  \<open>scale\<close>: \<open>new_mp\<close> is \<open>self\<close> when \<open>inplace\<close> and a deep copy otherwise, and as
  values the two start equal. The result is the pair of \<open>self\<close> as the call leaves it
  and of the chain returned; without \<open>inplace\<close>, \<open>self\<close> is not written.
\<close>

definition scale ::
  "'a ext \<Rightarrow> 'a chain \<Rightarrow> scalar \<Rightarrow> bool \<Rightarrow> error + 'a chain \<times> 'a chain" where
  "scale x c val inplace =
     err_bind (if iscomplexobj val then to_complex x c else Inr c) (\<lambda>new_mp.
     case qnidx (if inplace then new_mp else c) of
       None \<Rightarrow> Inl TypeError
     | Some q \<Rightarrow>
         err_bind (getitem new_mp q) (\<lambda>mt.
         err_bind (setitem x new_mp q (np_mul x mt val)) (\<lambda>r.
         Inr (if inplace then r else c, r))))"

text \<open>\<open>__eq__\<close>: \<open>zip\<close> stops at the end of the shorter chain.\<close>

fun eq_loop :: "'a ext \<Rightarrow> ('a \<times> 'a) list \<Rightarrow> error + bool" where
  "eq_loop x [] = Inr True"
| "eq_loop x ((m1, m2) # rest) =
     err_bind (np_allclose x m1 m2) (\<lambda>close.
     if \<not> close then Inr False else eq_loop x rest)"

definition chain_eq :: "'a ext \<Rightarrow> 'a chain \<Rightarrow> 'a chain \<Rightarrow> error + bool" where
  "chain_eq x self other = eq_loop x (zip (mp self) (mp other))"

subsection \<open>The contraction \<open>dot\<close>\<close>

text \<open>
  \<open>dot\<close> is decided by what numpy does with the shapes of the arrays, so here an array
  is concrete: its shape and its entries, as a function of the index list. The numpy
  operations that \<open>dot\<close> calls are written out from numpy's documented behaviour.
\<close>

record ndarray =
  shape :: "nat list"
  elems :: "nat list \<Rightarrow> complex"

definition ndim :: "ndarray \<Rightarrow> nat" where
  "ndim a = length (shape a)"

text \<open>\<open>np.eye(1, 1)\<close>.\<close>

definition eye_1_1 :: ndarray where
  "eye_1_1 = \<lparr> shape = [1, 1], elems = (\<lambda>_. 1) \<rparr>"

text \<open>
  \<open>np.tensordot(a, b, 1)\<close> sums over the last axis of \<open>a\<close> and the first axis of
  \<open>b\<close>: a missing axis raises \<open>IndexError\<close>, axes of different sizes raise
  \<open>ValueError\<close>.
\<close>

definition tensordot_axes1 :: "ndarray \<Rightarrow> ndarray \<Rightarrow> error + ndarray" where
  "tensordot_axes1 a b =
     (if shape a = [] \<or> shape b = [] then Inl IndexError
      else if last (shape a) \<noteq> hd (shape b) then Inl ValueError
      else Inr \<lparr> shape = butlast (shape a) @ tl (shape b),
                 elems = (\<lambda>idx. sum_list (map
                    (\<lambda>k. elems a (take (ndim a - 1) idx @ [k]) * elems b (k # drop (ndim a - 1) idx))
                    [0..<last (shape a)])) \<rparr>)"

text \<open>
  The check of \<open>np.tensordot(a, b, (axes, axes))\<close>, axis by axis in the order given.
\<close>

fun check_axes :: "nat list \<Rightarrow> nat list \<Rightarrow> nat list \<Rightarrow> error + unit" where
  "check_axes sa sb [] = Inr ()"
| "check_axes sa sb (k # ks) =
     (if length sa \<le> k \<or> length sb \<le> k then Inl IndexError
      else if sa ! k \<noteq> sb ! k then Inl ValueError
      else check_axes sa sb ks)"

text \<open>All index lists within the given dimensions, in row-major order.\<close>

fun all_indices :: "nat list \<Rightarrow> nat list list" where
  "all_indices [] = [[]]"
| "all_indices (d # ds) = concat (map (\<lambda>k. map (\<lambda>ks. k # ks) (all_indices ds)) [0..<d])"

text \<open>
  \<open>np.tensordot(a, b, ([0, ..., n-1], [0, ..., n-1]))\<close> sums over the first \<open>n\<close> axes
  of both arrays; the remaining axes of \<open>a\<close> come first in the result.
\<close>

definition tensordot_leading :: "nat \<Rightarrow> ndarray \<Rightarrow> ndarray \<Rightarrow> error + ndarray" where
  "tensordot_leading n a b =
     err_bind (check_axes (shape a) (shape b) [0..<n]) (\<lambda>_.
     Inr \<lparr> shape = drop n (shape a) @ drop n (shape b),
           elems = (\<lambda>idx. sum_list (map
              (\<lambda>ks. elems a (ks @ take (ndim a - n) idx) * elems b (ks @ drop (ndim a - n) idx))
              (all_indices (take n (shape a))))) \<rparr>)"

text \<open>The attribute \<open>.T\<close> reverses the axes.\<close>

definition transpose_all :: "ndarray \<Rightarrow> ndarray" where
  "transpose_all a = \<lparr> shape = rev (shape a), elems = (\<lambda>idx. elems a (rev idx)) \<rparr>"

text \<open>
  \<open>e0[0, 0]\<close>: too many indices for the array, or an axis of size 0, raise
  \<open>IndexError\<close>. The result is a scalar when \<open>e0\<close> has two axes, and the sub-array
  of the remaining axes otherwise.
\<close>

definition item_0_0 :: "ndarray \<Rightarrow> error + ndarray" where
  "item_0_0 a =
     (if ndim a < 2 then Inl IndexError
      else if shape a ! 0 = 0 \<or> shape a ! 1 = 0 then Inl IndexError
      else Inr \<lparr> shape = drop 2 (shape a), elems = (\<lambda>idx. elems a (0 # 0 # idx)) \<rparr>)"

text \<open>The body of the loop of \<open>dot\<close>, from the running tensor \<open>e0\<close>.\<close>

definition dot_step :: "ndarray \<Rightarrow> ndarray \<Rightarrow> ndarray \<Rightarrow> error + ndarray" where
  "dot_step e0 mt1 mt2 =
     err_bind (tensordot_axes1 e0 mt2) (\<lambda>e1.
       if ndim mt1 = 3 then
         err_bind (tensordot_leading 2 e1 mt1) (\<lambda>e2. Inr (transpose_all e2))
       else if ndim mt1 = 4 then
         err_bind (tensordot_leading 3 e1 mt1) (\<lambda>e2. Inr (transpose_all e2))
       else Inl AssertionError)"

text \<open>The loop over \<open>zip(self, other)\<close>.\<close>

fun dot_loop :: "ndarray \<Rightarrow> (ndarray \<times> ndarray) list \<Rightarrow> error + ndarray" where
  "dot_loop e0 [] = Inr e0"
| "dot_loop e0 ((mt1, mt2) # rest) =
     err_bind (dot_step e0 mt1 mt2) (\<lambda>e. dot_loop e rest)"

definition dot :: "ndarray chain \<Rightarrow> ndarray chain \<Rightarrow> error + ndarray" where
  "dot self other =
     err_bind (py_assert (length (mp self) = length (mp other))) (\<lambda>_.
     err_bind (dot_loop eye_1_1 (zip (mp self) (mp other))) item_0_0)"

section \<open>Auxiliary definitions for the proofs\<close>

text \<open>
  The labels of every bond whose index lies in \<open>S\<close> replaced by their complement with
  respect to the total \<open>t\<close>.
\<close>

definition flip_set :: "int \<Rightarrow> int set \<Rightarrow> int list list \<Rightarrow> int list list" where
  "flip_set t S q =
     map (\<lambda>k. if int k \<in> S then map (\<lambda>i. t - i) (q ! k) else q ! k) [0..<length q]"

text \<open>A chain of three sites with labelled bonds, boundary at site 0, total 2.\<close>

definition example_chain :: "complex chain" where
  "example_chain =
     \<lparr> mp = [2, 3, 5], dtype = Float64, compress_method = ''svd'',
       stored_threshold = 1 / 1000, use_dummy_qn = False,
       qn = Some [[0], [0, 1], [1, 2], [2]], qnidx = Some 0, stored_qntot = Some 2 \<rparr>"

text \<open>
  The Euclidean norm and the quotient without rounding. Floating-point arithmetic agrees
  with them wherever the exact result is a float64 value, as with the spectra and the
  thresholds of the examples below.
\<close>

definition exact_norm :: "real list \<Rightarrow> float64" where
  "exact_norm xs = Finite (sqrt (sum_list (map (\<lambda>v. v * v) xs)))"

definition exact_divide :: "real \<Rightarrow> float64 \<Rightarrow> float64" where
  "exact_divide s n =
     (case n of
        Finite d \<Rightarrow>
          (if d = 0 then (if s = 0 then NaN else if 0 < s then PosInf else NegInf)
           else Finite (s / d))
      | PosInf \<Rightarrow> Finite 0
      | NegInf \<Rightarrow> Finite 0
      | NaN \<Rightarrow> NaN)"

text \<open>
  Stand-ins for the collaborators, for evaluating the model on concrete chains: every
  tensor has shape \<open>(1, 1, 1)\<close> and is given by its one entry, \<open>Csvd\<close> in SVD mode
  returns a prescribed spectrum, and the norm is a given function.
\<close>

definition toy_ext :: "real list \<Rightarrow> (real list \<Rightarrow> float64) \<Rightarrow> complex ext" where
  "toy_ext sig nrm =
     \<lparr> is_mpo = Inr False,
       sub_get_sigmaqn = (\<lambda>_. Inr [0]),
       Matrix = (\<lambda>a _. a),
       with_sigmaqn = (\<lambda>a _. a),
       sigmaqn = (\<lambda>_. [0]),
       np_cast = (\<lambda>d a. case d of Float64 \<Rightarrow> complex_of_real (Re a) | Complex128 \<Rightarrow> a),
       mt_any = (\<lambda>a. a \<noteq> 0),
       check_lortho = (\<lambda>a. a = 1),
       check_rortho = (\<lambda>a. a = 1),
       r_combine = (\<lambda>a. a),
       l_combine = (\<lambda>a. a),
       shape_first = (\<lambda>_. 1),
       shape_last = (\<lambda>_. 1),
       pdim_prod = (\<lambda>_. 1),
       Csvd = (\<lambda>a _ _ _ qr system_r.
                 if qr then
                   (if system_r then Inr (QR a (Some [0]) 1 (Some [0]))
                    else Inr (QR 1 (Some [0]) a (Some [0])))
                 else Inr (SVD 1 sig (Some [0]) 1 sig (Some [0]))),
       np_T = (\<lambda>a. a),
       ncols = (\<lambda>_. 1),
       take_cols = (\<lambda>_ a. a),
       take_rows = (\<lambda>_ a. a),
       scale_cols = (\<lambda>a s. a * complex_of_real (prod_list s)),
       scale_rows = (\<lambda>s a. complex_of_real (prod_list s) * a),
       tensordot1 = (\<lambda>a b. a * b),
       reshape_vt = (\<lambda>a _ _. a),
       reshape_u = (\<lambda>a _ _. a),
       np_mul = (\<lambda>a v. case v of PyFloat r \<Rightarrow> a * complex_of_real r | PyComplex z \<Rightarrow> a * z),
       np_allclose = (\<lambda>a b. Inr (a = b)),
       linalg_norm = nrm,
       np_divide = exact_divide \<rparr>"

text \<open>A chain of three such tensors, every bond with the one label 0.\<close>

definition toy_chain :: "complex chain" where
  "toy_chain =
     \<lparr> mp = [1, 1, 1], dtype = Float64, compress_method = ''svd'',
       stored_threshold = 1 / 1000, use_dummy_qn = False,
       qn = Some [[0], [0], [0], [0]], qnidx = Some 0, stored_qntot = Some 0 \<rparr>"

text \<open>Two chains agree on what the sweep direction depends on.\<close>

definition same_frame :: "'a chain \<Rightarrow> 'a chain \<Rightarrow> bool" where
  "same_frame c c1 \<longleftrightarrow> qnidx c1 = qnidx c \<and> length (mp c1) = length (mp c)"

text \<open>
  The boundary tensor of the left-to-right contraction, by its defining sums: one step
  takes the boundary \<open>E\<close> (first index on the side of \<open>self\<close>) over a pair of site
  tensors \<open>A\<close> of \<open>self\<close> and \<open>B\<close> of \<open>other\<close>, of rank 3 or both of rank 4.
\<close>

definition step_boundary ::
  "(nat \<Rightarrow> nat \<Rightarrow> complex) \<Rightarrow> ndarray \<Rightarrow> ndarray \<Rightarrow> nat \<Rightarrow> nat \<Rightarrow> complex" where
  "step_boundary E A B i j =
     (if ndim A = 3 then
        (\<Sum>a<shape A ! 0. \<Sum>b<shape B ! 0. \<Sum>p<shape A ! 1.
            E a b * elems A [a, p, i] * elems B [b, p, j])
      else
        (\<Sum>a<shape A ! 0. \<Sum>b<shape B ! 0. \<Sum>p<shape A ! 1. \<Sum>q<shape A ! 2.
            E a b * elems A [a, p, q, i] * elems B [b, p, q, j]))"

fun boundary_from ::
  "(nat \<Rightarrow> nat \<Rightarrow> complex) \<Rightarrow> (ndarray \<times> ndarray) list \<Rightarrow> nat \<Rightarrow> nat \<Rightarrow> complex" where
  "boundary_from E [] = E"
| "boundary_from E ((A, B) # rest) = boundary_from (step_boundary E A B) rest"

text \<open>
  Pairs of site tensors whose dimensions agree: both of rank 3 or both of rank 4, left
  bond dimensions \<open>ra\<close> and \<open>rb\<close> as left open by the pair before, equal physical
  dimensions, and at the end two bonds that are not empty.
\<close>

fun compatible :: "nat \<Rightarrow> nat \<Rightarrow> (ndarray \<times> ndarray) list \<Rightarrow> bool" where
  "compatible ra rb [] = (0 < ra \<and> 0 < rb)"
| "compatible ra rb ((A, B) # rest) =
     ((ndim A = 3 \<or> ndim A = 4) \<and> ndim B = ndim A
      \<and> hd (shape A) = ra \<and> hd (shape B) = rb
      \<and> butlast (tl (shape A)) = butlast (tl (shape B))
      \<and> compatible (last (shape A)) (last (shape B)) rest)"

text \<open>
  A site tensor of a state (rank 3) and one of an operator (rank 4), every entry 1, and
  the chains of one site made of them.
\<close>

definition mps_site :: ndarray where
  "mps_site = \<lparr> shape = [1, 2, 1], elems = (\<lambda>_. 1) \<rparr>"

definition mpo_site :: ndarray where
  "mpo_site = \<lparr> shape = [1, 2, 2, 1], elems = (\<lambda>_. 1) \<rparr>"

definition chain_of :: "ndarray list \<Rightarrow> ndarray chain" where
  "chain_of ts = init\<lparr> mp := ts \<rparr>"

section \<open>Error propagation\<close>

lemma err_bind_Inr [simp]: "err_bind (Inr a) f = f a"
  by (simp add: err_bind_def)

lemma err_bind_Inl [simp]: "err_bind (Inl e) f = Inl e"
  by (simp add: err_bind_def)

lemma err_bind_eq_Inr:
  "err_bind m f = Inr y \<longleftrightarrow> (\<exists>a. m = Inr a \<and> f a = Inr y)"
  by (cases m) simp_all

lemma py_assert_eq_Inr: "py_assert b = Inr u \<longleftrightarrow> b"
  by (simp add: py_assert_def)

section \<open>The threshold setter\<close>

text \<open>
  C6. Assigning the threshold raises exactly when the value is non-positive or equal
  to 1. The setter alone decides, no sweep runs: a rejected assignment leaves the whole
  chain as it was, an accepted one changes the stored threshold to the value assigned
  and nothing else.
\<close>

theorem threshold_setter_rejects_eagerly:
  "(fst (set_threshold c v) \<noteq> None \<longleftrightarrow> v \<le> 0 \<or> v = 1)
   \<and> (fst (set_threshold c v) \<noteq> None \<longrightarrow> snd (set_threshold c v) = c)
   \<and> (fst (set_threshold c v) = None \<longrightarrow>
        snd (set_threshold c v) = c\<lparr> stored_threshold := v \<rparr>
        \<and> threshold (snd (set_threshold c v)) = v)"
  by (simp add: set_threshold_def threshold_def)

theorem threshold_setter_witness:
  "fst (set_threshold example_chain 1) \<noteq> None
   \<and> snd (set_threshold example_chain 1) = example_chain
   \<and> fst (set_threshold example_chain (1/2)) = None
   \<and> threshold (snd (set_threshold example_chain (1/2))) = 1/2"
  using threshold_setter_rejects_eagerly [of example_chain 1]
        threshold_setter_rejects_eagerly [of example_chain "1/2"]
  by (simp add: threshold_def)

section \<open>The total quantum number\<close>

text \<open>
  C5, as stated, fails: with \<open>use_dummy_qn\<close> false, an assignment to \<open>qntot\<close> replaces
  a stored total that was not \<open>None\<close>.
\<close>

theorem qntot_reassigned_counterexample:
  "\<not> (\<forall>c :: complex chain. \<forall>v. stored_qntot c \<noteq> None \<and> \<not> use_dummy_qn c \<longrightarrow>
         stored_qntot (set_qntot c v) = stored_qntot c)"
proof
  assume h: "\<forall>c :: complex chain. \<forall>v. stored_qntot c \<noteq> None \<and> \<not> use_dummy_qn c \<longrightarrow>
         stored_qntot (set_qntot c v) = stored_qntot c"
  have "stored_qntot (set_qntot example_chain (Some 3)) = stored_qntot example_chain"
    using h by (simp add: example_chain_def)
  then show False by (simp add: set_qntot_def example_chain_def)
qed

text \<open>
  C5, amended. The setter guards on \<open>use_dummy_qn\<close> only: when the flag is false,
  every assignment stores the assigned value, whatever was stored before; when the
  flag is true, the assignment changes nothing and the total reads as 0.
\<close>

theorem qntot_setter_stores_unless_dummy:
  "(\<not> use_dummy_qn c \<longrightarrow> stored_qntot (set_qntot c v) = v \<and> qntot (set_qntot c v) = v)
   \<and> (use_dummy_qn c \<longrightarrow> set_qntot c v = c \<and> qntot (set_qntot c v) = Some 0)"
  by (simp add: set_qntot_def qntot_def)

theorem qntot_setter_witness:
  "stored_qntot (set_qntot example_chain (Some 3)) = Some 3
   \<and> set_qntot (example_chain\<lparr> use_dummy_qn := True \<rparr>) (Some 3)
       = example_chain\<lparr> use_dummy_qn := True \<rparr>"
  using qntot_setter_stores_unless_dummy [of example_chain "Some 3"]
        qntot_setter_stores_unless_dummy [of "example_chain\<lparr> use_dummy_qn := True \<rparr>" "Some 3"]
  by (simp add: example_chain_def)

section \<open>Moving the boundary and back\<close>

lemma length_flip_set: "length (flip_set t S q) = length q"
  by (simp add: flip_set_def)

lemma nth_flip_set:
  "k < length q \<Longrightarrow>
   flip_set t S q ! k = (if int k \<in> S then map (\<lambda>i. t - i) (q ! k) else q ! k)"
  by (simp add: flip_set_def)

lemma flip_set_empty: "flip_set t {} q = q"
  by (rule nth_equalityI) (simp_all add: length_flip_set nth_flip_set)

lemma flip_set_twice: "flip_set t S (flip_set t S q) = q"
  by (rule nth_equalityI) (simp_all add: length_flip_set nth_flip_set comp_def)

lemma flip_at_valid:
  assumes "0 \<le> idx" "idx < int (length q)"
  shows "flip_at (Some t) q idx = Inr (flip_set t {idx} q)"
proof -
  have "q[nat idx := map (\<lambda>i. t - i) (q ! nat idx)] = flip_set t {idx} q"
    using assms
    by (intro nth_equalityI) (auto simp add: length_flip_set nth_flip_set nth_list_update)
  then show ?thesis using assms by (simp add: flip_at_def py_index_def)
qed

lemma flip_set_insert:
  assumes "idx \<notin> S"
  shows "flip_set t S (flip_set t {idx} q) = flip_set t (insert idx S) q"
  using assms
  by (intro nth_equalityI) (auto simp add: length_flip_set nth_flip_set)

lemma flip_loop_valid:
  "distinct idxs \<Longrightarrow> \<forall>i \<in> set idxs. 0 \<le> i \<and> i < int (length q) \<Longrightarrow>
   flip_loop (Some t) idxs q = Inr (flip_set t (set idxs) q)"
proof (induction idxs arbitrary: q)
  case Nil
  then show ?case by (simp add: flip_set_empty)
next
  case (Cons idx idxs)
  have a: "flip_at (Some t) q idx = Inr (flip_set t {idx} q)"
    using Cons.prems by (simp add: flip_at_valid)
  have b: "flip_loop (Some t) idxs (flip_set t {idx} q)
           = Inr (flip_set t (set idxs) (flip_set t {idx} q))"
    using Cons.prems by (intro Cons.IH) (simp_all add: length_flip_set)
  show ?case using Cons.prems a b by (simp add: flip_set_insert)
qed

lemma set_py_range: "set (py_range a b) = {a..b - 1}"
  by (simp add: py_range_def)

lemma distinct_py_range: "distinct (py_range a b)"
  by (simp add: py_range_def)

lemma set_py_range_down: "set (py_range_down a b) = {b + 1..a}"
  by (simp add: py_range_down_def)

lemma distinct_py_range_down: "distinct (py_range_down a b)"
  by (simp add: py_range_down_def)

lemma move_qnidx_valid:
  assumes "qnidx c = Some a" "qn c = Some q" "qntot c = Some t" "0 \<le> a" "0 \<le> b"
  shows "move_qnidx c b =
         Inr (c\<lparr> qn := Some (flip_set t {b + 1..int (length q) - 2}
                                 (flip_set t {a + 1..int (length q) - 2} q)),
                   qnidx := Some b \<rparr>)"
proof -
  have 1: "flip_loop (Some t) (py_range (a + 1) (int (length q) - 1)) q
           = Inr (flip_set t {a + 1..int (length q) - 2} q)"
    using assms(4)
    by (subst flip_loop_valid) (auto simp add: set_py_range distinct_py_range)
  have 2: "flip_loop (Some t) (py_range_down (int (length q) - 2) b)
              (flip_set t {a + 1..int (length q) - 2} q)
           = Inr (flip_set t {b + 1..int (length q) - 2}
                    (flip_set t {a + 1..int (length q) - 2} q))"
    using assms(5)
    by (subst flip_loop_valid)
       (auto simp add: set_py_range_down distinct_py_range_down length_flip_set)
  show ?thesis
    using assms(1,2,3) 1 2 by (simp add: move_qnidx_def length_flip_set)
qed

lemma flip_set_commute:
  "flip_set t S (flip_set t T q) = flip_set t T (flip_set t S q)"
  by (intro nth_equalityI) (auto simp add: length_flip_set nth_flip_set)

text \<open>
  C3. On a chain whose boundary is at index \<open>a\<close>, whose bonds are labelled and whose
  total is set, \<open>move_qnidx b\<close> followed by \<open>move_qnidx a\<close> succeeds and gives back the
  chain it started from: every label vector and the boundary index. Valid indices are
  not negative, which is all the proof needs.
\<close>

theorem move_qnidx_there_and_back:
  assumes "qnidx c = Some a" "qn c = Some q" "qntot c = Some t" "0 \<le> a" "0 \<le> b"
  shows "\<exists>c1. move_qnidx c b = Inr c1 \<and> qnidx c1 = Some b \<and> move_qnidx c1 a = Inr c"
proof -
  let ?A = "{a + 1..int (length q) - 2}" and ?B = "{b + 1..int (length q) - 2}"
  let ?c1 = "c\<lparr> qn := Some (flip_set t ?B (flip_set t ?A q)), qnidx := Some b \<rparr>"
  have 1: "move_qnidx c b = Inr ?c1"
    using assms by (rule move_qnidx_valid)
  have t1: "qntot ?c1 = Some t" using assms(3) by (simp add: qntot_def split: if_splits)
  have "move_qnidx ?c1 a =
        Inr (?c1\<lparr> qn := Some (flip_set t {a + 1..int (length (flip_set t ?B (flip_set t ?A q))) - 2}
                   (flip_set t {b + 1..int (length (flip_set t ?B (flip_set t ?A q))) - 2}
                      (flip_set t ?B (flip_set t ?A q)))),
                 qnidx := Some a \<rparr>)"
    using t1 assms(4,5) by (intro move_qnidx_valid) simp_all
  also have "\<dots> = Inr (c\<lparr> qn := Some q, qnidx := Some a \<rparr>)"
    by (simp add: length_flip_set flip_set_twice)
  also have "\<dots> = Inr c" using assms(1,2) by simp
  finally show ?thesis using 1 by simp
qed

theorem move_qnidx_there_and_back_witness:
  "move_qnidx example_chain 2
     = Inr (example_chain\<lparr> qn := Some [[0], [2, 1], [1, 0], [2]], qnidx := Some 2 \<rparr>)
   \<and> (\<exists>c1. move_qnidx example_chain 2 = Inr c1 \<and> qnidx c1 = Some 2
          \<and> move_qnidx c1 0 = Inr example_chain)"
proof -
  have "move_qnidx example_chain 2
     = Inr (example_chain\<lparr> qn := Some [[0], [2, 1], [1, 0], [2]], qnidx := Some 2 \<rparr>)"
    by code_simp
  moreover have "\<exists>c1. move_qnidx example_chain 2 = Inr c1 \<and> qnidx c1 = Some 2
          \<and> move_qnidx c1 0 = Inr example_chain"
    by (rule move_qnidx_there_and_back [of example_chain 0 "[[0], [0, 1], [1, 2], [2]]" 2 2])
       (simp_all add: example_chain_def qntot_def)
  ultimately show ?thesis by simp
qed

section \<open>The truncation rule\<close>




lemma toy_norm: "linalg_norm (toy_ext s nrm) = nrm"
  by (simp add: toy_ext_def)

lemma toy_divide: "np_divide (toy_ext s nrm) = exact_divide"
  by (simp add: toy_ext_def)

lemma norm_four_ones: "exact_norm [1, 1, 1, 1] = Finite 2"
  by (simp add: exact_norm_def)



lemma count_greater_mono:
  "t1 \<le> t2 \<Longrightarrow> count_nonzero (greater_than ys t2) \<le> count_nonzero (greater_than ys t1)"
proof (induction ys)
  case Nil
  then show ?case by (simp add: count_nonzero_def greater_than_def)
next
  case (Cons y ys)
  then show ?case
    by (cases y) (auto simp add: count_nonzero_def greater_than_def)
qed

text \<open>
  C4. For thresholds \<open>0 < t1 < t2 < 1\<close> and one spectrum, the rank computed at \<open>t1\<close>
  is at least the rank computed at \<open>t2\<close>; and when the rule accepts the rank at
  \<open>t2\<close> (it is not zero), it accepts the rank at \<open>t1\<close> too. This holds however the
  norm and the quotients are rounded.
\<close>

theorem kept_rank_antitone:
  assumes "0 < t1" "t1 < t2" "t2 < 1"
  shows "m_trunc x t2 sigma \<le> m_trunc x t1 sigma
         \<and> (\<forall>m2. truncation x t2 sigma = Inr m2 \<longrightarrow>
               (\<exists>m1. truncation x t1 sigma = Inr m1 \<and> m2 \<le> m1))"
proof -
  have le: "m_trunc x t2 sigma \<le> m_trunc x t1 sigma"
    using assms count_greater_mono [of t1 t2 "normed_sigma x sigma"]
    by (simp add: m_trunc_def)
  have nonneg: "0 \<le> m_trunc x t2 sigma"
    using assms by (simp add: m_trunc_def)
  show ?thesis
  proof (intro conjI allI impI)
    show "m_trunc x t2 sigma \<le> m_trunc x t1 sigma" by (rule le)
  next
    fix m2
    assume "truncation x t2 sigma = Inr m2"
    then have "m_trunc x t2 sigma \<noteq> 0" and "m2 = nat (m_trunc x t2 sigma)"
      by (auto simp add: truncation_def err_bind_eq_Inr py_assert_eq_Inr)
    then have "truncation x t1 sigma = Inr (nat (m_trunc x t1 sigma))
               \<and> m2 \<le> nat (m_trunc x t1 sigma)"
      using le nonneg assms by (simp add: truncation_def py_assert_def)
    then show "\<exists>m1. truncation x t1 sigma = Inr m1 \<and> m2 \<le> m1" by blast
  qed
qed

lemma norm_eight: "exact_norm [7, 3, 2, 1, 1] = Finite 8"
proof -
  have "sqrt 64 = sqrt (8\<^sup>2)" by simp
  also have "\<dots> = 8" by (simp only: real_sqrt_abs abs_numeral)
  finally show ?thesis by (simp add: exact_norm_def)
qed

lemma m_trunc_half: "m_trunc (toy_ext s exact_norm) (1/2) [7, 3, 2, 1, 1] = 1"
  by (simp add: m_trunc_def greater_than_def normed_sigma_def toy_norm toy_divide
      norm_eight exact_divide_def count_nonzero_def)

lemma m_trunc_quarter_five: "m_trunc (toy_ext s exact_norm) (1/4) [7, 3, 2, 1, 1] = 2"
  by (simp add: m_trunc_def greater_than_def normed_sigma_def toy_norm toy_divide
      norm_eight exact_divide_def count_nonzero_def)

theorem kept_rank_antitone_witness:
  "m_trunc (toy_ext [] exact_norm) (1/2) [7, 3, 2, 1, 1] = 1
   \<and> m_trunc (toy_ext [] exact_norm) (1/4) [7, 3, 2, 1, 1] = 2
   \<and> (\<exists>m1. truncation (toy_ext [] exact_norm) (1/4) [7, 3, 2, 1, 1] = Inr m1 \<and> 1 \<le> m1)"
proof -
  have t: "truncation (toy_ext [] exact_norm) (1/2) [7, 3, 2, 1, 1] = Inr 1"
    by (simp add: truncation_def py_assert_def m_trunc_half)
  have "m_trunc (toy_ext [] exact_norm) (1/2) [7, 3, 2, 1, 1]
          \<le> m_trunc (toy_ext [] exact_norm) (1/4) [7, 3, 2, 1, 1]
         \<and> (\<forall>m2. truncation (toy_ext [] exact_norm) (1/2) [7, 3, 2, 1, 1] = Inr m2 \<longrightarrow>
               (\<exists>m1. truncation (toy_ext [] exact_norm) (1/4) [7, 3, 2, 1, 1] = Inr m1
                     \<and> m2 \<le> m1))"
    by (rule kept_rank_antitone) simp_all
  then show ?thesis using t by (simp add: m_trunc_half m_trunc_quarter_five)
qed

section \<open>The sweeps\<close>

lemma same_frame_refl: "same_frame c c"
  by (simp add: same_frame_def)

lemma same_frame_trans: "same_frame a b \<Longrightarrow> same_frame b c \<Longrightarrow> same_frame a c"
  by (simp add: same_frame_def)

lemma same_frame_left_canon: "same_frame c c1 \<Longrightarrow> is_left_canon c1 = is_left_canon c"
  by (simp add: same_frame_def is_left_canon_def site_num_def)

lemma setitem_frame: "setitem x c k a = Inr c1 \<Longrightarrow> same_frame c c1"
  by (auto simp add: setitem_def err_bind_eq_Inr same_frame_def)

lemma set_qn_frame: "set_qn c idx l = Inr c1 \<Longrightarrow> same_frame c c1"
  by (auto simp add: set_qn_def err_bind_eq_Inr same_frame_def split: option.splits)

lemma opt_set_qn_frame:
  "(case qs of None \<Rightarrow> Inr c | Some l \<Rightarrow> set_qn c idx (take m l)) = Inr c1 \<Longrightarrow> same_frame c c1"
  by (cases qs) (auto simp add: same_frame_refl dest: set_qn_frame)

lemma update_ms_frame:
  assumes "update_ms x c idx u0 vt0 sigma qnlset qnrset m_opt = Inr c'"
  shows "same_frame c c'"
proof (cases "is_left_canon c")
  case True
  with assms obtain a c1 c2 where
    "setitem x c (idx - 1) a = Inr c1"
    "(case qnrset of None \<Rightarrow> Inr c1
      | Some qs \<Rightarrow> set_qn c1 idx (take (case m_opt of None \<Rightarrow> ncols x u0 | Some k \<Rightarrow> k) qs)) = Inr c2"
    "\<exists>b. setitem x c2 idx b = Inr c'"
    by (auto simp add: update_ms_def Let_def err_bind_eq_Inr)
  then show ?thesis
    by (blast intro: same_frame_trans setitem_frame opt_set_qn_frame)
next
  case False
  with assms obtain a c1 c2 where
    "setitem x c (idx + 1) a = Inr c1"
    "(case qnlset of None \<Rightarrow> Inr c1
      | Some qs \<Rightarrow> set_qn c1 (idx + 1) (take (case m_opt of None \<Rightarrow> ncols x u0 | Some k \<Rightarrow> k) qs)) = Inr c2"
    "\<exists>b. setitem x c2 idx b = Inr c'"
    by (auto simp add: update_ms_def Let_def err_bind_eq_Inr)
  then show ?thesis
    by (blast intro: same_frame_trans setitem_frame opt_set_qn_frame)
qed

lemma compress_site_frame:
  assumes "compress_site x system_r c idx = Inr c'"
  shows "same_frame c c'"
proof -
  from assms obtain r where
    "(case r of
        QR _ _ _ _ \<Rightarrow> Inl ValueError
      | SVD u _ qnlset v sigma qnrset \<Rightarrow>
          err_bind (truncation x (threshold c) sigma) (\<lambda>m.
          update_ms x c idx u (np_T x v) (Some sigma) qnlset qnrset (Some m))) = Inr c'"
    by (auto simp add: compress_site_def err_bind_eq_Inr)
  then show ?thesis
    by (cases r) (auto simp add: err_bind_eq_Inr dest: update_ms_frame)
qed

lemma canonicalise_site_frame:
  assumes "canonicalise_site x c idx = Inr c'"
  shows "same_frame c c'"
proof -
  from assms obtain r where
    "(case r of
        SVD _ _ _ _ _ _ \<Rightarrow> Inl ValueError
      | QR u qnlset v qnrset \<Rightarrow>
          update_ms x c idx u (np_T x v) None qnlset qnrset None) = Inr c'"
    by (auto simp add: canonicalise_site_def err_bind_eq_Inr)
  then show ?thesis
    by (cases r) (auto dest: update_ms_frame)
qed

lemma sweep_loop_frame:
  assumes body: "\<And>c idx c1. body c idx = Inr c1 \<Longrightarrow> same_frame c c1"
  shows "sweep_loop body idxs c = Inr (c', vis) \<Longrightarrow> vis = idxs \<and> same_frame c c'"
proof (induction idxs arbitrary: c vis)
  case Nil
  then show ?case by (simp add: same_frame_refl)
next
  case (Cons idx idxs)
  from Cons.prems obtain c1 vis1 where
    1: "body c idx = Inr c1" and 2: "sweep_loop body idxs c1 = Inr (c', vis1)"
    and 3: "vis = idx # vis1"
    by (auto simp add: err_bind_eq_Inr)
  from Cons.IH [OF 2] body [OF 1] 3 show ?case
    by (blast intro: same_frame_trans)
qed

lemma sweep_loop_fails_at:
  "sweep_loop body pre c = Inr (c1, vis) \<Longrightarrow> body c1 idx = Inl e \<Longrightarrow>
   sweep_loop body (pre @ idx # post) c = Inl e"
proof (induction pre arbitrary: c vis)
  case Nil
  then show ?case by simp
next
  case (Cons i pre)
  from Cons.prems(1) obtain c0 vis0 where
    1: "body c i = Inr c0" and 2: "sweep_loop body pre c0 = Inr (c1, vis0)"
    by (auto simp add: err_bind_eq_Inr)
  from Cons.IH [OF 2 Cons.prems(2)] 1 show ?case by simp
qed

lemma iter_idx_list_left:
  "qnidx c = Some (site_num c - 1) \<Longrightarrow> iter_idx_list c = rev [1..site_num c - 1]"
  by (simp add: iter_idx_list_def is_left_canon_def py_range_down_def)

lemma iter_idx_list_right:
  assumes "qnidx c = Some 0"
  shows "iter_idx_list c = [0..site_num c - 2]"
proof (cases "is_left_canon c")
  case True
  with assms have "site_num c = 1" by (simp add: is_left_canon_def)
  with True show ?thesis by (simp add: iter_idx_list_def py_range_down_def)
next
  case False
  then show ?thesis by (simp add: iter_idx_list_def py_range_def)
qed

lemma switch_domain_left:
  "qnidx c = Some (site_num c - 1) \<Longrightarrow> qnidx (switch_domain c) = Some 0"
  by (simp add: switch_domain_def is_left_canon_def)

lemma switch_domain_right:
  "qnidx c = Some 0 \<Longrightarrow> qnidx (switch_domain c) = Some (site_num c - 1)"
  by (auto simp add: switch_domain_def is_left_canon_def)

lemma site_num_switch_domain: "site_num (switch_domain c) = site_num c"
  by (simp add: switch_domain_def site_num_def)

lemma sweep_then_switch:
  assumes body: "\<And>c idx c1. body c idx = Inr c1 \<Longrightarrow> same_frame c c1"
    and run: "err_bind (sweep_loop body (iter_idx_list c) c)
                (\<lambda>(c1, visited). Inr (switch_domain c1, visited)) = Inr (c', vis)"
  shows "site_num c' = site_num c
     \<and> (qnidx c = Some (site_num c - 1) \<longrightarrow>
          vis = rev [1..site_num c - 1] \<and> qnidx c' = Some 0)
     \<and> (qnidx c = Some 0 \<longrightarrow>
          vis = [0..site_num c - 2] \<and> qnidx c' = Some (site_num c - 1))"
proof -
  from run obtain c1 where
    loop: "sweep_loop body (iter_idx_list c) c = Inr (c1, vis)"
    and c': "c' = switch_domain c1"
    by (auto simp add: err_bind_eq_Inr)
  from sweep_loop_frame [of body, OF body loop]
  have vis: "vis = iter_idx_list c" and frame: "same_frame c c1" by simp_all
  from frame have q: "qnidx c1 = qnidx c" and n: "site_num c1 = site_num c"
    by (simp_all add: same_frame_def site_num_def)
  show ?thesis
    using vis q n c' iter_idx_list_left [of c] iter_idx_list_right [of c]
      switch_domain_left [of c1] switch_domain_right [of c1]
    by (simp add: site_num_switch_domain)
qed

text \<open>
  C1. When \<open>canonicalise\<close> or \<open>compress\<close> completes on a chain of \<open>site_num\<close>
  sites: from a left-canonical chain (\<open>qnidx = site_num - 1\<close>) the loop body ran on
  \<open>site_num - 1\<close> down to 1, in this order, and \<open>qnidx\<close> is 0 afterwards; from a
  right-canonical chain (\<open>qnidx = 0\<close>) it ran on 0 up to \<open>site_num - 2\<close>, in this
  order, and \<open>qnidx\<close> is \<open>site_num - 1\<close> afterwards. The number of sites does not
  change. (On a chain of one site the two cases coincide: no index is visited and
  \<open>qnidx\<close> stays 0.)
\<close>

theorem sweeps_visit_in_order:
  assumes "canonicalise x c = Inr (c', vis) \<or> compress x c check_canonical = Inr (c', vis)"
  shows "site_num c' = site_num c
     \<and> (qnidx c = Some (site_num c - 1) \<longrightarrow>
          vis = rev [1..site_num c - 1] \<and> qnidx c' = Some 0)
     \<and> (qnidx c = Some 0 \<longrightarrow>
          vis = [0..site_num c - 2] \<and> qnidx c' = Some (site_num c - 1))"
  using assms
proof
  assume "canonicalise x c = Inr (c', vis)"
  then show ?thesis
    unfolding canonicalise_def
    by (rule sweep_then_switch [of "canonicalise_site x", rotated])
       (rule canonicalise_site_frame)
next
  assume "compress x c check_canonical = Inr (c', vis)"
  then have "err_bind (sweep_loop (compress_site x (is_left_canon c)) (iter_idx_list c) c)
                (\<lambda>(c1, visited). Inr (switch_domain c1, visited)) = Inr (c', vis)"
    by (auto simp add: compress_def err_bind_eq_Inr)
  then show ?thesis
    by (rule sweep_then_switch [of "compress_site x (is_left_canon c)", rotated])
       (rule compress_site_frame)
qed

lemma toy_canon_right: "canonicalise (toy_ext [1] nrm) toy_chain
   = Inr (toy_chain\<lparr> qnidx := Some 2 \<rparr>, [0, 1])"
  by code_simp

lemma toy_canon_left: "canonicalise (toy_ext [1] nrm) (toy_chain\<lparr> qnidx := Some 2 \<rparr>)
   = Inr (toy_chain, [2, 1])"
  by code_simp

section \<open>A truncation that keeps nothing\<close>

lemma compress_site_steps:
  assumes "getitem c idx = Inr mt" "mt_any x mt" "get_big_qn x c idx = Inr (l, r)"
    and "Csvd x (if is_left_canon c then r_combine x mt else l_combine x mt) l r (qntot c)
           False system_r = Inr (SVD u s0 ql v sigma qr)"
  shows "compress_site x system_r c idx =
         err_bind (truncation x (threshold c) sigma) (\<lambda>m.
           update_ms x c idx u (np_T x v) (Some sigma) ql qr (Some m))"
  using assms by (simp add: compress_site_def py_assert_def)

lemma truncation_zero_rank:
  "m_trunc x thr sigma = 0 \<Longrightarrow> truncation x thr sigma = Inl AssertionError"
  by (simp add: truncation_def py_assert_def)

lemma compress_fails_at:
  assumes "iter_idx_list c = pre @ idx # post"
    and "sweep_loop (compress_site x (is_left_canon c)) pre c = Inr (c1, vis)"
    and "compress_site x (is_left_canon c) c1 idx = Inl AssertionError"
  shows "compress x c check_canonical = Inl AssertionError"
proof -
  have "sweep_loop (compress_site x (is_left_canon c)) (iter_idx_list c) c
        = Inl AssertionError"
    using assms by (simp add: sweep_loop_fails_at)
  then show ?thesis
    by (simp add: compress_def py_assert_def)
qed

text \<open>
  C7. In \<open>compress\<close>, when the loop reaches a site whose spectrum gives the rank 0
  under the truncation rule (for instance when every normalised singular value is at
  or below the threshold), the step raises \<open>AssertionError\<close> and so does
  \<open>compress\<close>: the rank is not replaced by 1 and the sweep does not go on.
\<close>

theorem compress_rejects_zero_rank:
  assumes "iter_idx_list c = pre @ idx # post"
    and "sweep_loop (compress_site x (is_left_canon c)) pre c = Inr (c1, vis)"
    and "getitem c1 idx = Inr mt" and "mt_any x mt"
    and "get_big_qn x c1 idx = Inr (l, r)"
    and "Csvd x (if is_left_canon c1 then r_combine x mt else l_combine x mt) l r (qntot c1)
           False (is_left_canon c) = Inr (SVD u s0 ql v sigma qr)"
    and "m_trunc x (threshold c1) sigma = 0"
  shows "compress_site x (is_left_canon c) c1 idx = Inl AssertionError
         \<and> compress x c check_canonical = Inl AssertionError"
proof -
  have "compress_site x (is_left_canon c) c1 idx = Inl AssertionError"
    using assms(3-7) by (simp add: compress_site_steps truncation_zero_rank)
  with assms(1,2) show ?thesis by (simp add: compress_fails_at)
qed

lemma truncation_one: "truncation (toy_ext s exact_norm) (1 / 1000) [1] = Inr 1"
  by (simp add: truncation_def py_assert_def m_trunc_def greater_than_def normed_sigma_def
      toy_norm toy_divide exact_norm_def exact_divide_def count_nonzero_def)

lemma m_trunc_all_below: "m_trunc (toy_ext s exact_norm) (9 / 10) [1, 1, 1, 1] = 0"
  by (simp add: m_trunc_def greater_than_def normed_sigma_def toy_norm toy_divide
      norm_four_ones exact_divide_def count_nonzero_def)

lemma toy_threshold: "threshold toy_chain = 1 / 1000"
  by (simp add: threshold_def toy_chain_def)

lemma toy_getitem: "getitem (toy_chain\<lparr> qnidx := q, stored_threshold := t \<rparr>) 0 = Inr 1"
  by (simp add: getitem_def py_index_def toy_chain_def)

lemma toy_any: "mt_any (toy_ext s nrm) 1"
  by (simp add: toy_ext_def)

lemma toy_big_qn:
  "get_big_qn (toy_ext s nrm) (toy_chain\<lparr> stored_threshold := t \<rparr>) 0 = Inr (Arr2 [[0]], Arr1 [0])"
  by (simp add: get_big_qn_def getitem_def get_qn_def py_index_def py_assert_def
      is_left_canon_def site_num_def outer_add_def toy_chain_def toy_ext_def)

lemma toy_csvd:
  "Csvd (toy_ext s nrm) a l r t False sr = Inr (SVD 1 s (Some [0]) 1 s (Some [0]))"
  by (simp add: toy_ext_def)

theorem compress_rejects_zero_rank_witness:
  "m_trunc (toy_ext [1, 1, 1, 1] exact_norm) (9 / 10) [1, 1, 1, 1] = 0
   \<and> compress (toy_ext [1, 1, 1, 1] exact_norm) (toy_chain\<lparr> stored_threshold := 9 / 10 \<rparr>) True
       = Inl AssertionError"
proof -
  let ?c = "toy_chain\<lparr> stored_threshold := 9 / 10 \<rparr>"
  have 1: "iter_idx_list ?c = [] @ 0 # [1]" by code_simp
  have 2: "sweep_loop (compress_site (toy_ext [1, 1, 1, 1] exact_norm) (is_left_canon ?c)) [] ?c
           = Inr (?c, [])" by simp
  have 3: "getitem ?c 0 = Inr 1" by (simp add: getitem_def py_index_def toy_chain_def)
  have 4: "m_trunc (toy_ext [1, 1, 1, 1] exact_norm) (threshold ?c) [1, 1, 1, 1] = 0"
    by (simp add: threshold_def m_trunc_all_below)
  from compress_rejects_zero_rank [OF 1 2 3 toy_any toy_big_qn toy_csvd 4, of True]
  show ?thesis by (simp add: m_trunc_all_below)
qed

section \<open>The sweeps on a concrete chain\<close>

lemma toy_left_getitem: "getitem (toy_chain\<lparr> qnidx := Some 2 \<rparr>) 2 = Inr 1"
  by code_simp

lemma toy_left_getitem1: "getitem (toy_chain\<lparr> qnidx := Some 2 \<rparr>) 1 = Inr 1"
  by code_simp

lemma toy_left_big_qn:
  "get_big_qn (toy_ext s nrm) (toy_chain\<lparr> qnidx := Some 2 \<rparr>) 2 = Inr (Arr1 [0], Arr2 [[0]])"
  by code_simp

lemma toy_left_big_qn1:
  "get_big_qn (toy_ext s nrm) (toy_chain\<lparr> qnidx := Some 2 \<rparr>) 1 = Inr (Arr1 [0], Arr2 [[0]])"
  by code_simp

lemma toy_left_update:
  "update_ms (toy_ext [1] nrm) (toy_chain\<lparr> qnidx := Some 2 \<rparr>) 2 1 (np_T (toy_ext [1] nrm) 1)
     (Some [1]) (Some [0]) (Some [0]) (Some 1) = Inr (toy_chain\<lparr> qnidx := Some 2 \<rparr>)"
  by code_simp

lemma toy_left_update1:
  "update_ms (toy_ext [1] nrm) (toy_chain\<lparr> qnidx := Some 2 \<rparr>) 1 1 (np_T (toy_ext [1] nrm) 1)
     (Some [1]) (Some [0]) (Some [0]) (Some 1) = Inr (toy_chain\<lparr> qnidx := Some 2 \<rparr>)"
  by code_simp

lemma toy_left_threshold: "threshold (toy_chain\<lparr> qnidx := Some 2 \<rparr>) = 1 / 1000"
  by (simp add: threshold_def toy_chain_def)

lemma toy_left_site_2:
  "compress_site (toy_ext [1] exact_norm) True (toy_chain\<lparr> qnidx := Some 2 \<rparr>) 2
   = Inr (toy_chain\<lparr> qnidx := Some 2 \<rparr>)"
  by (simp add: compress_site_steps [OF toy_left_getitem toy_any toy_left_big_qn toy_csvd]
      toy_left_threshold truncation_one toy_left_update del: One_nat_def)

lemma toy_left_site_1:
  "compress_site (toy_ext [1] exact_norm) True (toy_chain\<lparr> qnidx := Some 2 \<rparr>) 1
   = Inr (toy_chain\<lparr> qnidx := Some 2 \<rparr>)"
  by (simp add: compress_site_steps [OF toy_left_getitem1 toy_any toy_left_big_qn1 toy_csvd]
      toy_left_threshold truncation_one toy_left_update1 del: One_nat_def)

lemma toy_left_iter: "iter_idx_list (toy_chain\<lparr> qnidx := Some 2 \<rparr>) = [2, 1]"
  by code_simp

lemma toy_left_checks:
  "is_left_canon (toy_chain\<lparr> qnidx := Some 2 \<rparr>)
   \<and> check_left_canonical (toy_ext [1] nrm) (toy_chain\<lparr> qnidx := Some 2 \<rparr>)"
  by code_simp

lemma toy_left_switch: "switch_domain (toy_chain\<lparr> qnidx := Some 2 \<rparr>) = toy_chain"
  by code_simp

lemma toy_compress_left:
  "compress (toy_ext [1] exact_norm) (toy_chain\<lparr> qnidx := Some 2 \<rparr>) True = Inr (toy_chain, [2, 1])"
  by (simp add: compress_def toy_left_checks py_assert_def toy_left_iter toy_left_site_2
      toy_left_site_1 toy_left_switch)

theorem sweeps_visit_in_order_witness:
  "canonicalise (toy_ext [1] exact_norm) toy_chain = Inr (toy_chain\<lparr> qnidx := Some 2 \<rparr>, [0, 1])
   \<and> qnidx toy_chain = Some 0
   \<and> [0, 1] = [0..site_num toy_chain - 2]
   \<and> qnidx (toy_chain\<lparr> qnidx := Some 2 \<rparr>) = Some (site_num toy_chain - 1)
   \<and> compress (toy_ext [1] exact_norm) (toy_chain\<lparr> qnidx := Some 2 \<rparr>) True = Inr (toy_chain, [2, 1])
   \<and> [2, 1] = rev [1..site_num (toy_chain\<lparr> qnidx := Some 2 \<rparr>) - 1]"
proof -
  have n: "site_num toy_chain = 3" "site_num (toy_chain\<lparr> qnidx := Some 2 \<rparr>) = 3"
    by (simp_all add: site_num_def toy_chain_def)
  have q: "qnidx toy_chain = Some 0" by (simp add: toy_chain_def)
  from sweeps_visit_in_order [OF disjI1, OF toy_canon_right] n q
  have a: "[0, 1] = [0..site_num toy_chain - 2]
           \<and> qnidx (toy_chain\<lparr> qnidx := Some 2 \<rparr>) = Some (site_num toy_chain - 1)"
    by simp
  from sweeps_visit_in_order [OF disjI2, OF toy_compress_left] n
  have b: "[2, 1] = rev [1..site_num (toy_chain\<lparr> qnidx := Some 2 \<rparr>) - 1]"
    by simp
  show ?thesis using a b q toy_canon_right toy_compress_left by simp
qed

section \<open>Equality of chains\<close>

lemma eq_loop_all_close:
  "\<forall>p \<in> set ps. np_allclose x (fst p) (snd p) = Inr True \<Longrightarrow> eq_loop x ps = Inr True"
  by (induction ps) auto

lemma eq_loop_first_not_close:
  "\<forall>p \<in> set pre. np_allclose x (fst p) (snd p) = Inr True \<Longrightarrow>
   np_allclose x m1 m2 = Inr False \<Longrightarrow>
   eq_loop x (pre @ (m1, m2) # post) = Inr False"
  by (induction pre) auto

lemma zip_split_at:
  assumes "k < min (length xs) (length ys)"
  shows "zip xs ys = zip (take k xs) (take k ys) @ (xs ! k, ys ! k) # zip (drop (Suc k) xs) (drop (Suc k) ys)"
proof -
  have "k < length (zip xs ys)" using assms by simp
  from id_take_nth_drop [OF this] assms show ?thesis
    by (simp add: take_zip drop_zip)
qed

text \<open>
  C10. \<open>__eq__\<close> compares the tensors of two chains pairwise up to the length of the
  shorter one: when every such pair is close, the result is \<open>True\<close>, whether or not the
  chains have the same number of sites, and in particular a chain without sites equals
  every chain; when some pair within the shorter length is the first that is not close,
  the result is \<open>False\<close>.
\<close>

theorem chain_eq_compares_common_prefix:
  "((\<forall>i < min (length (mp a)) (length (mp b)).
        np_allclose x (mp a ! i) (mp b ! i) = Inr True) \<longrightarrow>
      chain_eq x a b = Inr True)
   \<and> chain_eq x (a\<lparr> mp := [] \<rparr>) b = Inr True
   \<and> (\<forall>k < min (length (mp a)) (length (mp b)).
        (\<forall>i<k. np_allclose x (mp a ! i) (mp b ! i) = Inr True)
        \<and> np_allclose x (mp a ! k) (mp b ! k) = Inr False \<longrightarrow>
        chain_eq x a b = Inr False)"
proof (intro conjI impI allI)
  assume h: "\<forall>i < min (length (mp a)) (length (mp b)).
        np_allclose x (mp a ! i) (mp b ! i) = Inr True"
  have "\<forall>p \<in> set (zip (mp a) (mp b)). np_allclose x (fst p) (snd p) = Inr True"
    using h by (auto simp add: in_set_zip)
  then show "chain_eq x a b = Inr True"
    by (simp add: chain_eq_def eq_loop_all_close)
next
  show "chain_eq x (a\<lparr> mp := [] \<rparr>) b = Inr True"
    by (simp add: chain_eq_def)
next
  fix k
  assume k: "k < min (length (mp a)) (length (mp b))"
    and h: "(\<forall>i<k. np_allclose x (mp a ! i) (mp b ! i) = Inr True)
            \<and> np_allclose x (mp a ! k) (mp b ! k) = Inr False"
  have pre: "\<forall>p \<in> set (zip (take k (mp a)) (take k (mp b))).
               np_allclose x (fst p) (snd p) = Inr True"
    using h k by (auto simp add: in_set_zip)
  from eq_loop_first_not_close [OF pre, of "mp a ! k" "mp b ! k"] h zip_split_at [OF k]
  show "chain_eq x a b = Inr False"
    by (simp add: chain_eq_def)
qed

theorem chain_eq_compares_common_prefix_witness:
  "length (mp (example_chain\<lparr> mp := [2, 3] \<rparr>)) \<noteq> length (mp example_chain)
   \<and> chain_eq (toy_ext [] exact_norm) (example_chain\<lparr> mp := [2, 3] \<rparr>) example_chain = Inr True
   \<and> chain_eq (toy_ext [] exact_norm) (example_chain\<lparr> mp := [] \<rparr>) example_chain = Inr True
   \<and> chain_eq (toy_ext [] exact_norm) (example_chain\<lparr> mp := [2, 4] \<rparr>) example_chain = Inr False"
proof -
  have close: "\<forall>i < min (length (mp (example_chain\<lparr> mp := [2, 3] \<rparr>))) (length (mp example_chain)).
        np_allclose (toy_ext [] exact_norm) (mp (example_chain\<lparr> mp := [2, 3] \<rparr>) ! i)
          (mp example_chain ! i) = Inr True"
    by (simp add: example_chain_def toy_ext_def less_Suc_eq nth_Cons')
  have differ: "1 < min (length (mp (example_chain\<lparr> mp := [2, 4] \<rparr>))) (length (mp example_chain))
      \<and> (\<forall>i<1. np_allclose (toy_ext [] exact_norm) (mp (example_chain\<lparr> mp := [2, 4] \<rparr>) ! i)
                  (mp example_chain ! i) = Inr True)
      \<and> np_allclose (toy_ext [] exact_norm) (mp (example_chain\<lparr> mp := [2, 4] \<rparr>) ! 1)
          (mp example_chain ! 1) = Inr False"
    by (simp add: example_chain_def toy_ext_def)
  have t: "chain_eq (toy_ext [] exact_norm) (example_chain\<lparr> mp := [2, 3] \<rparr>) example_chain = Inr True
     \<and> chain_eq (toy_ext [] exact_norm) (example_chain\<lparr> mp := [] \<rparr>) example_chain = Inr True"
    using close chain_eq_compares_common_prefix
         [of "example_chain\<lparr> mp := [2, 3] \<rparr>" example_chain "toy_ext [] exact_norm"]
    by (simp add: example_chain_def)
  have f: "chain_eq (toy_ext [] exact_norm) (example_chain\<lparr> mp := [2, 4] \<rparr>) example_chain = Inr False"
    using differ chain_eq_compares_common_prefix
         [of "example_chain\<lparr> mp := [2, 4] \<rparr>" example_chain "toy_ext [] exact_norm"]
    by blast
  from t f show ?thesis by (simp add: example_chain_def)
qed

section \<open>Scaling\<close>

lemma getitem_valid:
  "0 \<le> q \<Longrightarrow> q < site_num c \<Longrightarrow> getitem c q = Inr (mp c ! nat q)"
  by (simp add: getitem_def py_index_def site_num_def)

lemma setitem_valid:
  "0 \<le> q \<Longrightarrow> q < site_num c \<Longrightarrow>
   setitem x c q a = err_bind (array2mt x c a q) (\<lambda>t. Inr (c\<lparr> mp := (mp c)[nat q := t] \<rparr>))"
  by (simp add: setitem_def py_index_def site_num_def)

lemma setitem_dtype: "setitem x c k a = Inr c1 \<Longrightarrow> dtype c1 = dtype c"
  by (auto simp add: setitem_def err_bind_eq_Inr)

lemma to_complex_loop_frame:
  "to_complex_loop x idxs c = Inr c1 \<Longrightarrow> same_frame c c1 \<and> dtype c1 = dtype c"
proof (induction idxs arbitrary: c)
  case Nil
  then show ?case by (simp add: same_frame_refl)
next
  case (Cons i idxs)
  from Cons.prems obtain a c0 where
    1: "setitem x c i a = Inr c0" and 2: "to_complex_loop x idxs c0 = Inr c1"
    by (auto simp add: err_bind_eq_Inr)
  from Cons.IH [OF 2] setitem_frame [OF 1] setitem_dtype [OF 1] show ?case
    by (auto intro: same_frame_trans)
qed

lemma to_complex_frame:
  assumes "to_complex x c = Inr c1"
  shows "dtype c1 = Complex128 \<and> length (mp c1) = length (mp c) \<and> qnidx c1 = qnidx c"
  using to_complex_loop_frame [OF assms [unfolded to_complex_def]]
  by (simp add: same_frame_def)

lemma array2mt_cong:
  "dtype c = dtype c' \<Longrightarrow> use_dummy_qn c = use_dummy_qn c' \<Longrightarrow>
   array2mt x c a i = array2mt x c' a i"
  by (simp add: array2mt_def)

lemma py_range_nat: "py_range 0 (int n) = map int [0..<n]"
proof (induction n)
  case 0
  then show ?case by (simp add: py_range_def)
next
  case (Suc n)
  have "[0..int n] = [0..int n - 1] @ [int n]"
    using upto_rec2 [of 0 "int n"] by simp
  with Suc show ?case by (simp add: py_range_def)
qed

lemma to_complex_loop_nth:
  assumes "to_complex_loop x (map int [k..<length (mp c)]) c = Inr c1"
  shows "length (mp c1) = length (mp c)
     \<and> (\<forall>i<k. mp c1 ! i = mp c ! i)
     \<and> (\<forall>i. k \<le> i \<and> i < length (mp c) \<longrightarrow>
            array2mt x c (np_cast x (dtype c) (mp c ! i)) (int i) = Inr (mp c1 ! i))"
  using assms
proof (induction "length (mp c) - k" arbitrary: k c)
  case 0
  then show ?case by auto
next
  case (Suc d)
  then have k: "k < length (mp c)" by simp
  then have up: "[k..<length (mp c)] = k # [Suc k..<length (mp c)]"
    by (simp add: upt_rec)
  have g: "getitem c (int k) = Inr (mp c ! k)"
    using k by (simp add: getitem_valid site_num_def)
  from Suc.prems up g obtain t where
    t: "array2mt x c (np_cast x (dtype c) (mp c ! k)) (int k) = Inr t"
    and rest: "to_complex_loop x (map int [Suc k..<length (mp c)])
                 (c\<lparr> mp := (mp c)[k := t] \<rparr>) = Inr c1"
    using k by (auto simp add: err_bind_eq_Inr setitem_valid site_num_def)
  let ?c0 = "c\<lparr> mp := (mp c)[k := t] \<rparr>"
  have d: "d = length (mp ?c0) - Suc k" using Suc.hyps(2) by simp
  have rest': "to_complex_loop x (map int [Suc k..<length (mp ?c0)]) ?c0 = Inr c1"
    using rest by simp
  from Suc.hyps(1) [OF d rest']
  have ih: "length (mp c1) = length (mp c)"
    "\<forall>i<Suc k. mp c1 ! i = (mp c)[k := t] ! i"
    "\<forall>i. Suc k \<le> i \<and> i < length (mp c) \<longrightarrow>
        array2mt x ?c0 (np_cast x (dtype c) ((mp c)[k := t] ! i)) (int i) = Inr (mp c1 ! i)"
    by simp_all
  have cong: "\<And>a i. array2mt x ?c0 a i = array2mt x c a i"
    by (rule array2mt_cong) simp_all
  show ?case
  proof (intro conjI allI impI)
    show "length (mp c1) = length (mp c)" by (rule ih(1))
  next
    fix i assume "i < k"
    then show "mp c1 ! i = mp c ! i" using ih(2) by simp
  next
    fix i assume i: "k \<le> i \<and> i < length (mp c)"
    show "array2mt x c (np_cast x (dtype c) (mp c ! i)) (int i) = Inr (mp c1 ! i)"
    proof (cases "i = k")
      case True
      then show ?thesis using t ih(2) k by simp
    next
      case False
      then show ?thesis using i ih(3) cong by simp
    qed
  qed
qed

lemma to_complex_promotes:
  assumes "to_complex x c = Inr c1"
  shows "\<forall>i<length (mp c).
           array2mt x (c\<lparr> dtype := Complex128 \<rparr>) (np_cast x Complex128 (mp c ! i)) (int i)
           = Inr (mp c1 ! i)"
proof -
  have "to_complex_loop x (map int [0..<length (mp (c\<lparr> dtype := Complex128 \<rparr>))])
          (c\<lparr> dtype := Complex128 \<rparr>) = Inr c1"
    using assms by (simp add: to_complex_def site_num_def py_range_nat)
  from to_complex_loop_nth [OF this] show ?thesis by simp
qed

text \<open>
  C8. On a chain whose \<open>qnidx\<close> is the index \<open>q\<close> of a site, with or without
  \<open>inplace\<close>: for a real scalar, the chain that \<open>scale\<close> returns is the chain with the
  product of the tensor at \<open>q\<close> and the scalar stored at \<open>q\<close> (through
  \<open>__setitem__\<close>, which may raise) and nothing else changed, so every tensor at
  another index is unchanged; for a complex scalar, the chain is first promoted by
  \<open>to_complex\<close> (its \<open>dtype\<close> becomes complex, every tensor is stored again after the
  cast), and then the one tensor at \<open>q\<close> of the promoted chain is multiplied.
\<close>

theorem scale_multiplies_boundary_tensor_only:
  assumes "qnidx c = Some q" "0 \<le> q" "q < site_num c"
  shows "scale x c (PyFloat v) inplace
           = err_bind (array2mt x c (np_mul x (mp c ! nat q) (PyFloat v)) q)
               (\<lambda>t. Inr (if inplace then c\<lparr> mp := (mp c)[nat q := t] \<rparr> else c,
                         c\<lparr> mp := (mp c)[nat q := t] \<rparr>))
     \<and> (\<forall>s r. scale x c (PyFloat v) inplace = Inr (s, r) \<longrightarrow>
           length (mp r) = length (mp c)
           \<and> (\<forall>i<length (mp c). i \<noteq> nat q \<longrightarrow> mp r ! i = mp c ! i))
     \<and> scale x c (PyComplex z) inplace
           = err_bind (to_complex x c) (\<lambda>c1.
             err_bind (array2mt x c1 (np_mul x (mp c1 ! nat q) (PyComplex z)) q)
               (\<lambda>t. Inr (if inplace then c1\<lparr> mp := (mp c1)[nat q := t] \<rparr> else c,
                         c1\<lparr> mp := (mp c1)[nat q := t] \<rparr>)))
     \<and> (\<forall>c1. to_complex x c = Inr c1 \<longrightarrow>
           dtype c1 = Complex128 \<and> length (mp c1) = length (mp c)
           \<and> (\<forall>i<length (mp c).
                 array2mt x (c\<lparr> dtype := Complex128 \<rparr>) (np_cast x Complex128 (mp c ! i)) (int i)
                 = Inr (mp c1 ! i)))"
proof -
  have real: "scale x c (PyFloat v) inplace
           = err_bind (array2mt x c (np_mul x (mp c ! nat q) (PyFloat v)) q)
               (\<lambda>t. Inr (if inplace then c\<lparr> mp := (mp c)[nat q := t] \<rparr> else c,
                         c\<lparr> mp := (mp c)[nat q := t] \<rparr>))"
    using assms
    by (cases "array2mt x c (np_mul x (mp c ! nat q) (PyFloat v)) q")
       (simp_all add: scale_def iscomplexobj_def getitem_valid setitem_valid)
  have frame: "\<forall>s r. scale x c (PyFloat v) inplace = Inr (s, r) \<longrightarrow>
           length (mp r) = length (mp c)
           \<and> (\<forall>i<length (mp c). i \<noteq> nat q \<longrightarrow> mp r ! i = mp c ! i)"
    unfolding real by (auto simp add: err_bind_eq_Inr)
  have cplx: "scale x c (PyComplex z) inplace
           = err_bind (to_complex x c) (\<lambda>c1.
             err_bind (array2mt x c1 (np_mul x (mp c1 ! nat q) (PyComplex z)) q)
               (\<lambda>t. Inr (if inplace then c1\<lparr> mp := (mp c1)[nat q := t] \<rparr> else c,
                         c1\<lparr> mp := (mp c1)[nat q := t] \<rparr>)))"
  proof (cases "to_complex x c")
    case (Inl e)
    then show ?thesis by (simp add: scale_def iscomplexobj_def)
  next
    case (Inr c1)
    from to_complex_frame [OF Inr] assms have f: "q < site_num c1" "qnidx c1 = Some q"
      by (simp_all add: site_num_def)
    with Inr assms show ?thesis
      by (cases "array2mt x c1 (np_mul x (mp c1 ! nat q) (PyComplex z)) q")
         (simp_all add: scale_def iscomplexobj_def getitem_valid setitem_valid)
  qed
  have prom: "\<forall>c1. to_complex x c = Inr c1 \<longrightarrow>
           dtype c1 = Complex128 \<and> length (mp c1) = length (mp c)
           \<and> (\<forall>i<length (mp c).
                 array2mt x (c\<lparr> dtype := Complex128 \<rparr>) (np_cast x Complex128 (mp c ! i)) (int i)
                 = Inr (mp c1 ! i))"
    using to_complex_frame to_complex_promotes by blast
  from real frame cplx prom show ?thesis by blast
qed

theorem scale_multiplies_boundary_tensor_only_witness:
  "scale (toy_ext [] exact_norm) example_chain (PyFloat 2) False
     = Inr (example_chain, example_chain\<lparr> mp := [4, 3, 5] \<rparr>)
   \<and> scale (toy_ext [] exact_norm) example_chain (PyComplex \<i>) True
       = Inr (example_chain\<lparr> mp := [2 * \<i>, 3, 5], dtype := Complex128 \<rparr>,
              example_chain\<lparr> mp := [2 * \<i>, 3, 5], dtype := Complex128 \<rparr>)
   \<and> to_complex (toy_ext [] exact_norm) example_chain = Inr (example_chain\<lparr> dtype := Complex128 \<rparr>)"
proof -
  have q: "qnidx example_chain = Some 0" "(0::int) \<le> 0" "0 < site_num example_chain"
    by (simp_all add: example_chain_def site_num_def)
  have tc: "to_complex (toy_ext [] exact_norm) example_chain = Inr (example_chain\<lparr> dtype := Complex128 \<rparr>)"
    by (simp add: to_complex_def site_num_def py_range_def upto.simps getitem_def py_index_def
        setitem_def array2mt_def toy_ext_def example_chain_def)
  have a1: "array2mt (toy_ext [] exact_norm) example_chain
              (np_mul (toy_ext [] exact_norm) (mp example_chain ! nat 0) (PyFloat 2)) 0 = Inr 4"
    by (simp add: array2mt_def toy_ext_def example_chain_def)
  have a2: "array2mt (toy_ext [] exact_norm) (example_chain\<lparr> dtype := Complex128 \<rparr>)
              (np_mul (toy_ext [] exact_norm) (mp (example_chain\<lparr> dtype := Complex128 \<rparr>) ! nat 0)
                 (PyComplex \<i>)) 0 = Inr (2 * \<i>)"
    by (simp add: array2mt_def toy_ext_def example_chain_def)
  from scale_multiplies_boundary_tensor_only [OF q, of "toy_ext [] exact_norm" 2 False \<i>]
       scale_multiplies_boundary_tensor_only [OF q, of "toy_ext [] exact_norm" 2 True \<i>] tc a1 a2
  show ?thesis by (simp add: example_chain_def)
qed

section \<open>The contraction of two chains\<close>

lemma dot_state_operator: "(case dot (chain_of [mps_site]) (chain_of [mpo_site]) of
     Inl e \<Rightarrow> None | Inr r \<Rightarrow> Some (shape r, elems r [0], elems r [1])) = Some ([2], 2, 2)"
  by code_simp

lemma dot_state_state: "(case dot (chain_of [mps_site]) (chain_of [mps_site]) of
     Inl e \<Rightarrow> None | Inr r \<Rightarrow> Some (shape r, elems r [])) = Some ([], 2)"
  by code_simp

lemma dot_operator_state: "(case dot (chain_of [mpo_site]) (chain_of [mps_site]) of
     Inl e \<Rightarrow> Some e | Inr r \<Rightarrow> None) = Some ValueError"
  by code_simp

lemma dot_operator_operator: "(case dot (chain_of [mpo_site, mpo_site]) (chain_of [mpo_site, mpo_site]) of
     Inl e \<Rightarrow> None | Inr r \<Rightarrow> Some (shape r, elems r [])) = Some ([], 16)"
  by code_simp

lemma dot_length_mismatch:
  "length (mp a) \<noteq> length (mp b) \<Longrightarrow> dot a b = Inl AssertionError"
  by (simp add: dot_def py_assert_def)

lemma dot_step_bad_rank:
  "ndim mt1 \<noteq> 3 \<Longrightarrow> ndim mt1 \<noteq> 4 \<Longrightarrow> \<exists>e. dot_step e0 mt1 mt2 = Inl e"
  by (cases "tensordot_axes1 e0 mt2") (simp_all add: dot_step_def)

lemma dot_loop_bad_rank:
  "\<exists>p \<in> set ps. ndim (fst p) \<noteq> 3 \<and> ndim (fst p) \<noteq> 4 \<Longrightarrow> \<exists>e. dot_loop e0 ps = Inl e"
proof (induction ps arbitrary: e0)
  case Nil
  then show ?case by simp
next
  case (Cons p ps)
  obtain mt1 mt2 where p: "p = (mt1, mt2)" by (cases p)
  show ?case
  proof (cases "dot_step e0 mt1 mt2")
    case (Inl e)
    then show ?thesis by (simp add: p)
  next
    case (Inr e1)
    with dot_step_bad_rank [of mt1 e0 mt2] have "ndim mt1 = 3 \<or> ndim mt1 = 4" by auto
    with Cons.prems p have "\<exists>p \<in> set ps. ndim (fst p) \<noteq> 3 \<and> ndim (fst p) \<noteq> 4" by auto
    from Cons.IH [OF this, of e1] Inr show ?thesis by (simp add: p)
  qed
qed

lemma dot_bad_rank:
  assumes "length (mp a) = length (mp b)" "i < length (mp a)"
    "ndim (mp a ! i) \<noteq> 3" "ndim (mp a ! i) \<noteq> 4"
  shows "\<exists>e. dot a b = Inl e"
proof -
  have "(mp a ! i, mp b ! i) \<in> set (zip (mp a) (mp b))"
    using assms(1,2) by (auto simp add: in_set_zip)
  then have "\<exists>p \<in> set (zip (mp a) (mp b)). ndim (fst p) \<noteq> 3 \<and> ndim (fst p) \<noteq> 4"
    using assms(3,4) by force
  from dot_loop_bad_rank [OF this, of eye_1_1] show ?thesis
    by (auto simp add: dot_def py_assert_def assms(1))
qed

lemma tensordot_axes1_ndim:
  "tensordot_axes1 a b = Inr c \<Longrightarrow> int (ndim c) = int (ndim a) + int (ndim b) - 2"
  by (auto simp add: tensordot_axes1_def ndim_def split: if_splits)
     (cases "shape a"; cases "shape b"; simp)

lemma check_axes_Inr:
  "check_axes sa sb ks = Inr u \<Longrightarrow> \<forall>k \<in> set ks. k < length sa \<and> k < length sb \<and> sa ! k = sb ! k"
  by (induction ks) (auto split: if_splits)

lemma check_axes_ok:
  "\<forall>k \<in> set ks. k < length sa \<and> k < length sb \<and> sa ! k = sb ! k \<Longrightarrow> check_axes sa sb ks = Inr ()"
  by (induction ks) auto

lemma tensordot_leading_ndim:
  assumes "tensordot_leading n a b = Inr c" "0 < n"
  shows "int (ndim c) = int (ndim a) + int (ndim b) - 2 * int n"
proof -
  from assms(1) obtain u where u: "check_axes (shape a) (shape b) [0..<n] = Inr u"
    and c: "shape c = drop n (shape a) @ drop n (shape b)"
    by (auto simp add: tensordot_leading_def err_bind_eq_Inr)
  from check_axes_Inr [OF u] assms(2) have "n - 1 < length (shape a) \<and> n - 1 < length (shape b)"
    by simp
  with assms(2) have "n \<le> length (shape a)" "n \<le> length (shape b)" by arith+
  with c show ?thesis by (simp add: ndim_def of_nat_diff)
qed

lemma dot_step_ndim:
  assumes "dot_step e0 mt1 mt2 = Inr e"
  shows "int (ndim e) = int (ndim e0) + (int (ndim mt2) - int (ndim mt1))"
proof -
  from assms obtain e1 where e1: "tensordot_axes1 e0 mt2 = Inr e1"
    and rest: "(if ndim mt1 = 3 then
         err_bind (tensordot_leading 2 e1 mt1) (\<lambda>e2. Inr (transpose_all e2))
       else if ndim mt1 = 4 then
         err_bind (tensordot_leading 3 e1 mt1) (\<lambda>e2. Inr (transpose_all e2))
       else Inl AssertionError) = Inr e"
    by (auto simp add: dot_step_def err_bind_eq_Inr)
  have t: "\<And>a. ndim (transpose_all a) = ndim a" by (simp add: transpose_all_def ndim_def)
  from rest show ?thesis
    using tensordot_axes1_ndim [OF e1]
    by (auto simp add: err_bind_eq_Inr t split: if_splits dest!: tensordot_leading_ndim)
qed

lemma dot_loop_ndim:
  "dot_loop e0 ps = Inr e \<Longrightarrow>
   int (ndim e) = int (ndim e0) + (\<Sum>p\<leftarrow>ps. int (ndim (snd p)) - int (ndim (fst p)))"
proof (induction ps arbitrary: e0)
  case Nil
  then show ?case by simp
next
  case (Cons p ps)
  obtain mt1 mt2 where p: "p = (mt1, mt2)" by (cases p)
  from Cons.prems p obtain e1 where 1: "dot_step e0 mt1 mt2 = Inr e1"
    and 2: "dot_loop e1 ps = Inr e"
    by (auto simp add: err_bind_eq_Inr)
  from Cons.IH [OF 2] dot_step_ndim [OF 1] p show ?case by simp
qed

lemma dot_ndim:
  assumes "dot a b = Inr r"
  shows "int (ndim r) = (\<Sum>p\<leftarrow>zip (mp a) (mp b). int (ndim (snd p)) - int (ndim (fst p)))"
proof -
  from assms obtain e where 1: "dot_loop eye_1_1 (zip (mp a) (mp b)) = Inr e"
    and 2: "item_0_0 e = Inr r"
    by (auto simp add: dot_def err_bind_eq_Inr)
  from 2 have "2 \<le> ndim e" and "ndim r = ndim e - 2"
    by (auto simp add: item_0_0_def ndim_def split: if_splits)
  with dot_loop_ndim [OF 1] show ?thesis by (simp add: eye_1_1_def ndim_def)
qed

lemma sum_list_upt: "sum_list (map f [0..<n]) = (\<Sum>k<n. f k)"
  by (simp add: interv_sum_list_conv_sum_set_nat atLeast0LessThan)

lemma sum_list_concat_map:
  "sum_list (concat (map g xs)) = sum_list (map (\<lambda>x. sum_list (g x)) xs)"
  by (induction xs) simp_all

lemma sum_all_indices_Cons:
  "sum_list (map f (all_indices (d # ds)))
   = (\<Sum>k<d. sum_list (map (\<lambda>ks. f (k # ks)) (all_indices ds)))"
  by (simp add: map_concat comp_def sum_list_concat_map sum_list_upt [symmetric])

lemma sum_all_indices_Nil: "sum_list (map f (all_indices [])) = f []"
  by simp

lemma check_axes_prefix:
  assumes "take n sa = take n sb" "n \<le> length sa" "n \<le> length sb"
  shows "check_axes sa sb [0..<n] = Inr ()"
proof (rule check_axes_ok, intro ballI)
  fix k assume "k \<in> set [0..<n]"
  then have k: "k < n" by simp
  have "take n sa ! k = take n sb ! k" using assms(1) by simp
  moreover have "take n sa ! k = sa ! k" "take n sb ! k = sb ! k" using k by simp_all
  ultimately show "k < length sa \<and> k < length sb \<and> sa ! k = sb ! k"
    using k assms(2,3) by simp
qed

lemma length3: "length xs = 3 \<Longrightarrow> \<exists>a b c. xs = [a, b, c]"
  by (auto simp add: length_Suc_conv eval_nat_numeral)

lemma length4: "length xs = 4 \<Longrightarrow> \<exists>a b c d. xs = [a, b, c, d]"
  by (auto simp add: length_Suc_conv eval_nat_numeral)

lemma dot_step_rank3:
  assumes e0: "shape e0 = [ra, rb]" and A: "shape A = [ra, p, r1]" and B: "shape B = [rb, p, r2]"
  shows "\<exists>e. dot_step e0 A B = Inr e \<and> shape e = [r1, r2]
          \<and> (\<forall>i j. elems e [i, j] = step_boundary (\<lambda>a b. elems e0 [a, b]) A B i j)"
proof -
  define e1 where "e1 = \<lparr> shape = [ra, p, r2],
      elems = (\<lambda>idx. \<Sum>k<rb. elems e0 (take 1 idx @ [k]) * elems B (k # drop 1 idx)) \<rparr>"
  have 1: "tensordot_axes1 e0 B = Inr e1"
    by (simp add: tensordot_axes1_def e0 B ndim_def sum_list_upt e1_def)
  have s1: "shape e1 = [ra, p, r2]" by (simp add: e1_def)
  have v1: "elems e1 [a, pp, j] = (\<Sum>k<rb. elems e0 [a, k] * elems B [k, pp, j])" for a pp j
    by (simp add: e1_def)
  define e2 where "e2 = \<lparr> shape = [r2, r1],
      elems = (\<lambda>idx. \<Sum>a<ra. \<Sum>pp<p.
                 elems e1 (a # pp # take 1 idx) * elems A (a # pp # drop 1 idx)) \<rparr>"
  have chk: "check_axes [ra, p, r2] [ra, p, r1] [0..<2] = Inr ()"
    by (rule check_axes_prefix) simp_all
  have 2: "tensordot_leading 2 e1 A = Inr e2"
    by (simp add: tensordot_leading_def chk A s1 ndim_def sum_all_indices_Cons
        sum_all_indices_Nil e2_def del: all_indices.simps)
  have 3: "dot_step e0 A B = Inr (transpose_all e2)"
    by (simp add: dot_step_def 1 2 A ndim_def)
  have "elems (transpose_all e2) [i, j] = step_boundary (\<lambda>a b. elems e0 [a, b]) A B i j" for i j
  proof -
    have "elems (transpose_all e2) [i, j]
          = (\<Sum>a<ra. \<Sum>pp<p. (\<Sum>k<rb. elems e0 [a, k] * elems B [k, pp, j]) * elems A [a, pp, i])"
      by (simp add: transpose_all_def e2_def v1)
    also have "\<dots> = (\<Sum>a<ra. \<Sum>pp<p. \<Sum>k<rb. elems e0 [a, k] * elems A [a, pp, i] * elems B [k, pp, j])"
      by (simp add: sum_distrib_left sum_distrib_right mult_ac)
    also have "\<dots> = (\<Sum>a<ra. \<Sum>k<rb. \<Sum>pp<p. elems e0 [a, k] * elems A [a, pp, i] * elems B [k, pp, j])"
      by (rule sum.cong [OF refl]) (rule sum.swap)
    finally show ?thesis by (simp add: step_boundary_def A B ndim_def)
  qed
  moreover have "shape (transpose_all e2) = [r1, r2]" by (simp add: transpose_all_def e2_def)
  ultimately show ?thesis using 3 by blast
qed

lemma dot_step_rank4:
  assumes e0: "shape e0 = [ra, rb]" and A: "shape A = [ra, p, q, r1]"
    and B: "shape B = [rb, p, q, r2]"
  shows "\<exists>e. dot_step e0 A B = Inr e \<and> shape e = [r1, r2]
          \<and> (\<forall>i j. elems e [i, j] = step_boundary (\<lambda>a b. elems e0 [a, b]) A B i j)"
proof -
  define e1 where "e1 = \<lparr> shape = [ra, p, q, r2],
      elems = (\<lambda>idx. \<Sum>k<rb. elems e0 (take 1 idx @ [k]) * elems B (k # drop 1 idx)) \<rparr>"
  have 1: "tensordot_axes1 e0 B = Inr e1"
    by (simp add: tensordot_axes1_def e0 B ndim_def sum_list_upt e1_def)
  have s1: "shape e1 = [ra, p, q, r2]" by (simp add: e1_def)
  have v1: "elems e1 [a, pp, qq, j] = (\<Sum>k<rb. elems e0 [a, k] * elems B [k, pp, qq, j])"
    for a pp qq j
    by (simp add: e1_def)
  define e2 where "e2 = \<lparr> shape = [r2, r1],
      elems = (\<lambda>idx. \<Sum>a<ra. \<Sum>pp<p. \<Sum>qq<q.
                 elems e1 (a # pp # qq # take 1 idx) * elems A (a # pp # qq # drop 1 idx)) \<rparr>"
  have chk: "check_axes [ra, p, q, r2] [ra, p, q, r1] [0..<3] = Inr ()"
    by (rule check_axes_prefix) simp_all
  have 2: "tensordot_leading 3 e1 A = Inr e2"
    by (simp add: tensordot_leading_def chk A s1 ndim_def sum_all_indices_Cons
        sum_all_indices_Nil e2_def del: all_indices.simps)
  have 3: "dot_step e0 A B = Inr (transpose_all e2)"
    by (simp add: dot_step_def 1 2 A ndim_def)
  have "elems (transpose_all e2) [i, j] = step_boundary (\<lambda>a b. elems e0 [a, b]) A B i j" for i j
  proof -
    have "elems (transpose_all e2) [i, j]
          = (\<Sum>a<ra. \<Sum>pp<p. \<Sum>qq<q.
               (\<Sum>k<rb. elems e0 [a, k] * elems B [k, pp, qq, j]) * elems A [a, pp, qq, i])"
      by (simp add: transpose_all_def e2_def v1)
    also have "\<dots> = (\<Sum>a<ra. \<Sum>pp<p. \<Sum>qq<q. \<Sum>k<rb.
               elems e0 [a, k] * elems A [a, pp, qq, i] * elems B [k, pp, qq, j])"
      by (simp add: sum_distrib_left sum_distrib_right mult_ac)
    also have "\<dots> = (\<Sum>a<ra. \<Sum>pp<p. \<Sum>k<rb. \<Sum>qq<q.
               elems e0 [a, k] * elems A [a, pp, qq, i] * elems B [k, pp, qq, j])"
      by (intro sum.cong [OF refl]) (rule sum.swap)
    also have "\<dots> = (\<Sum>a<ra. \<Sum>k<rb. \<Sum>pp<p. \<Sum>qq<q.
               elems e0 [a, k] * elems A [a, pp, qq, i] * elems B [k, pp, qq, j])"
      by (rule sum.cong [OF refl]) (rule sum.swap)
    finally show ?thesis by (simp add: step_boundary_def A B ndim_def)
  qed
  moreover have "shape (transpose_all e2) = [r1, r2]" by (simp add: transpose_all_def e2_def)
  ultimately show ?thesis using 3 by blast
qed

lemma dot_step_compatible:
  assumes "shape e0 = [ra, rb]" "ndim A = 3 \<or> ndim A = 4" "ndim B = ndim A"
    "hd (shape A) = ra" "hd (shape B) = rb" "butlast (tl (shape A)) = butlast (tl (shape B))"
  shows "\<exists>e. dot_step e0 A B = Inr e \<and> shape e = [last (shape A), last (shape B)]
          \<and> (\<forall>i j. elems e [i, j] = step_boundary (\<lambda>a b. elems e0 [a, b]) A B i j)"
  using assms(2)
proof
  assume n: "ndim A = 3"
  with assms(3) obtain a p r a' p' r' where
    s: "shape A = [a, p, r]" "shape B = [a', p', r']"
    using length3 [of "shape A"] length3 [of "shape B"] by (auto simp add: ndim_def)
  with assms(4-6) have "shape A = [ra, p, r]" "shape B = [rb, p, r']" by simp_all
  from dot_step_rank3 [OF assms(1) this] this show ?thesis by simp
next
  assume n: "ndim A = 4"
  with assms(3) obtain a p q r a' p' q' r' where
    s: "shape A = [a, p, q, r]" "shape B = [a', p', q', r']"
    using length4 [of "shape A"] length4 [of "shape B"] by (auto simp add: ndim_def)
  with assms(4-6) have "shape A = [ra, p, q, r]" "shape B = [rb, p, q, r']" by simp_all
  from dot_step_rank4 [OF assms(1) this] this show ?thesis by simp
qed

lemma dot_loop_compatible:
  "compatible ra rb ps \<Longrightarrow> shape e0 = [ra, rb] \<Longrightarrow>
   \<exists>e ra' rb'. dot_loop e0 ps = Inr e \<and> shape e = [ra', rb'] \<and> 0 < ra' \<and> 0 < rb'
      \<and> elems e [0, 0] = boundary_from (\<lambda>a b. elems e0 [a, b]) ps 0 0"
proof (induction ps arbitrary: e0 ra rb)
  case Nil
  then show ?case by simp
next
  case (Cons p ps)
  obtain A B where p: "p = (A, B)" by (cases p)
  from Cons.prems(1) p have c: "ndim A = 3 \<or> ndim A = 4" "ndim B = ndim A"
    "hd (shape A) = ra" "hd (shape B) = rb" "butlast (tl (shape A)) = butlast (tl (shape B))"
    and rest: "compatible (last (shape A)) (last (shape B)) ps"
    by simp_all
  from dot_step_compatible [OF Cons.prems(2) c] obtain e1 where
    1: "dot_step e0 A B = Inr e1" and s1: "shape e1 = [last (shape A), last (shape B)]"
    and v1: "\<forall>i j. elems e1 [i, j] = step_boundary (\<lambda>a b. elems e0 [a, b]) A B i j"
    by blast
  from v1 have f: "(\<lambda>a b. elems e1 [a, b]) = step_boundary (\<lambda>a b. elems e0 [a, b]) A B"
    by (intro ext) simp
  from Cons.IH [OF rest s1] 1 f p show ?case by simp
qed

lemma dot_compatible:
  assumes "length (mp a) = length (mp b)" "compatible 1 1 (zip (mp a) (mp b))"
  shows "\<exists>r. dot a b = Inr r \<and> shape r = []
           \<and> elems r [] = boundary_from (\<lambda>_ _. 1) (zip (mp a) (mp b)) 0 0"
proof -
  have "shape eye_1_1 = [1, 1]" by (simp add: eye_1_1_def)
  from dot_loop_compatible [OF assms(2) this] obtain e ra' rb' where
    1: "dot_loop eye_1_1 (zip (mp a) (mp b)) = Inr e" and s: "shape e = [ra', rb']"
    and pos: "0 < ra'" "0 < rb'"
    and v: "elems e [0, 0] = boundary_from (\<lambda>a b. elems eye_1_1 [a, b]) (zip (mp a) (mp b)) 0 0"
    by blast
  have "item_0_0 e = Inr \<lparr> shape = [], elems = (\<lambda>idx. elems e (0 # 0 # idx)) \<rparr>"
    using s pos by (simp add: item_0_0_def ndim_def)
  with 1 v assms(1) show ?thesis
    by (simp add: dot_def py_assert_def eye_1_1_def)
qed

text \<open>
  C9, as stated, fails: a chain of one rank-3 tensor of shape \<open>(1, 2, 1)\<close> against a
  chain of one rank-4 tensor of shape \<open>(1, 2, 2, 1)\<close> has mismatching ranks, and \<open>dot\<close>
  raises nothing: it returns an array of shape \<open>(2,)\<close>.
\<close>

theorem dot_rank_mismatch_counterexample:
  "\<not> (\<forall>a b. length (mp a) = length (mp b)
          \<and> (\<exists>i<length (mp a). ndim (mp a ! i) = 3 \<and> ndim (mp b ! i) = 4
                               \<or> ndim (mp a ! i) = 4 \<and> ndim (mp b ! i) = 3)
          \<longrightarrow> (\<exists>e. dot a b = Inl e))"
proof
  assume h: "\<forall>a b. length (mp a) = length (mp b)
          \<and> (\<exists>i<length (mp a). ndim (mp a ! i) = 3 \<and> ndim (mp b ! i) = 4
                               \<or> ndim (mp a ! i) = 4 \<and> ndim (mp b ! i) = 3)
          \<longrightarrow> (\<exists>e. dot a b = Inl e)"
  have "length (mp (chain_of [mps_site])) = length (mp (chain_of [mpo_site]))
        \<and> (\<exists>i<length (mp (chain_of [mps_site])).
              ndim (mp (chain_of [mps_site]) ! i) = 3 \<and> ndim (mp (chain_of [mpo_site]) ! i) = 4
            \<or> ndim (mp (chain_of [mps_site]) ! i) = 4 \<and> ndim (mp (chain_of [mpo_site]) ! i) = 3)"
    by (simp add: chain_of_def ndim_def mps_site_def mpo_site_def)
  with h have "\<exists>e. dot (chain_of [mps_site]) (chain_of [mpo_site]) = Inl e" by blast
  with dot_state_operator show False by auto
qed

text \<open>
  C9, amended. \<open>dot\<close> raises \<open>AssertionError\<close> when the two chains have different
  lengths, and raises when some tensor of \<open>self\<close> has a rank other than 3 and 4. A
  mismatch of the ranks of corresponding tensors does not always raise: one rank-3
  tensor of shape \<open>(1, 2, 1)\<close> against one rank-4 tensor of shape \<open>(1, 2, 2, 1)\<close>
  returns an array of shape \<open>(2,)\<close>. Whenever \<open>dot\<close> returns, the rank of what it
  returns is the sum over the sites of the rank of the tensor of \<open>other\<close> minus the rank
  of the tensor of \<open>self\<close>, and \<open>dot\<close> raises when this sum is negative. For two chains
  of equal length whose corresponding tensors have both rank 3 or both rank 4 and whose
  dimensions agree (equal physical dimensions, bond dimensions that chain from 1 and do
  not end empty), it returns a scalar, the entry \<open>[0, 0]\<close> of the boundary tensor of
  the left-to-right contraction.
\<close>

theorem dot_errors_and_value:
  "(length (mp a) \<noteq> length (mp b) \<longrightarrow> dot a b = Inl AssertionError)
   \<and> (length (mp a) = length (mp b)
        \<and> (\<exists>i<length (mp a). ndim (mp a ! i) \<noteq> 3 \<and> ndim (mp a ! i) \<noteq> 4)
      \<longrightarrow> (\<exists>e. dot a b = Inl e))
   \<and> (\<exists>r. dot (chain_of [mps_site]) (chain_of [mpo_site]) = Inr r \<and> shape r = [2])
   \<and> (\<forall>r. dot a b = Inr r \<longrightarrow>
        int (ndim r) = (\<Sum>p\<leftarrow>zip (mp a) (mp b). int (ndim (snd p)) - int (ndim (fst p))))
   \<and> ((\<Sum>p\<leftarrow>zip (mp a) (mp b). int (ndim (snd p)) - int (ndim (fst p))) < 0 \<longrightarrow>
        (\<exists>e. dot a b = Inl e))
   \<and> (length (mp a) = length (mp b) \<and> compatible 1 1 (zip (mp a) (mp b)) \<longrightarrow>
        (\<exists>r. dot a b = Inr r \<and> shape r = []
              \<and> elems r [] = boundary_from (\<lambda>_ _. 1) (zip (mp a) (mp b)) 0 0))"
proof (intro conjI impI allI)
  assume "length (mp a) \<noteq> length (mp b)"
  then show "dot a b = Inl AssertionError" by (rule dot_length_mismatch)
next
  assume "length (mp a) = length (mp b)
        \<and> (\<exists>i<length (mp a). ndim (mp a ! i) \<noteq> 3 \<and> ndim (mp a ! i) \<noteq> 4)"
  then show "\<exists>e. dot a b = Inl e" by (blast intro: dot_bad_rank)
next
  show "\<exists>r. dot (chain_of [mps_site]) (chain_of [mpo_site]) = Inr r \<and> shape r = [2]"
    using dot_state_operator
    by (cases "dot (chain_of [mps_site]) (chain_of [mpo_site])") auto
next
  fix r assume "dot a b = Inr r"
  then show "int (ndim r) = (\<Sum>p\<leftarrow>zip (mp a) (mp b). int (ndim (snd p)) - int (ndim (fst p)))"
    by (rule dot_ndim)
next
  assume neg: "(\<Sum>p\<leftarrow>zip (mp a) (mp b). int (ndim (snd p)) - int (ndim (fst p))) < 0"
  show "\<exists>e. dot a b = Inl e"
  proof (cases "dot a b")
    case (Inl e)
    then show ?thesis by blast
  next
    case (Inr r)
    from dot_ndim [OF this] neg show ?thesis by simp
  qed
next
  assume "length (mp a) = length (mp b) \<and> compatible 1 1 (zip (mp a) (mp b))"
  then show "\<exists>r. dot a b = Inr r \<and> shape r = []
              \<and> elems r [] = boundary_from (\<lambda>_ _. 1) (zip (mp a) (mp b)) 0 0"
    by (blast intro: dot_compatible)
qed

theorem dot_errors_and_value_witness:
  "dot (chain_of [mpo_site, mpo_site]) (chain_of [mpo_site]) = Inl AssertionError
   \<and> (\<exists>e. dot (chain_of [eye_1_1]) (chain_of [mps_site]) = Inl e)
   \<and> (\<exists>r. dot (chain_of [mps_site]) (chain_of [mpo_site]) = Inr r \<and> int (ndim r) = 1)
   \<and> (\<exists>e. dot (chain_of [mpo_site]) (chain_of [mps_site]) = Inl e)
   \<and> (\<exists>r. dot (chain_of [mpo_site, mpo_site]) (chain_of [mpo_site, mpo_site]) = Inr r
          \<and> shape r = [] \<and> elems r [] = 16
          \<and> boundary_from (\<lambda>_ _. 1) (zip [mpo_site, mpo_site] [mpo_site, mpo_site]) 0 0 = 16)"
proof -
  have 1: "dot (chain_of [mpo_site, mpo_site]) (chain_of [mpo_site]) = Inl AssertionError"
    using dot_errors_and_value [of "chain_of [mpo_site, mpo_site]" "chain_of [mpo_site]"]
    by (simp add: chain_of_def)
  have 2: "\<exists>e. dot (chain_of [eye_1_1]) (chain_of [mps_site]) = Inl e"
    using dot_errors_and_value [of "chain_of [eye_1_1]" "chain_of [mps_site]"]
    by (simp add: chain_of_def ndim_def eye_1_1_def)
  obtain r where r: "dot (chain_of [mps_site]) (chain_of [mpo_site]) = Inr r"
    using dot_state_operator by (cases "dot (chain_of [mps_site]) (chain_of [mpo_site])") auto
  have 3: "\<exists>r. dot (chain_of [mps_site]) (chain_of [mpo_site]) = Inr r \<and> int (ndim r) = 1"
    using dot_errors_and_value [of "chain_of [mps_site]" "chain_of [mpo_site]"] r
    by (simp add: chain_of_def ndim_def mps_site_def mpo_site_def)
  have 4: "\<exists>e. dot (chain_of [mpo_site]) (chain_of [mps_site]) = Inl e"
    using dot_errors_and_value [of "chain_of [mpo_site]" "chain_of [mps_site]"]
    by (simp add: chain_of_def ndim_def mps_site_def mpo_site_def)
  have c: "compatible 1 1 (zip [mpo_site, mpo_site] [mpo_site, mpo_site])"
    by (simp add: ndim_def mpo_site_def)
  have 5: "\<exists>r. dot (chain_of [mpo_site, mpo_site]) (chain_of [mpo_site, mpo_site]) = Inr r
          \<and> shape r = [] \<and> elems r [] = 16
          \<and> boundary_from (\<lambda>_ _. 1) (zip [mpo_site, mpo_site] [mpo_site, mpo_site]) 0 0 = 16"
    using dot_errors_and_value [of "chain_of [mpo_site, mpo_site]" "chain_of [mpo_site, mpo_site]"]
      c dot_operator_operator
    by (auto simp add: chain_of_def)
  from 1 2 3 4 5 show ?thesis by blast
qed

end
